(* ===== verification/Prelude.thy ===== *)
theory Prelude
  imports Complex_Main "HOL-Library.Word"
begin

text \<open>
  Shared vocabulary of the development: Go's fixed-width integers as words, times and
  durations, error values with \<open>errors.Is\<close>, the collections of rewrite rules, and the
  interfaces (locales) that several components implement:
  \<^item> \<open>safe_system\<close>: a transition system with an inductive invariant;
  \<^item> \<open>one_shot\<close>: a channel closed through \<open>sync.Once\<close> (closing is final and idempotent);
  \<^item> \<open>bounded_channel\<close>: a buffered channel that a sender never over-fills.
\<close>

section \<open>Basic types\<close>

unbundle bit_operations_syntax

type_synonym u8 = "8 word"
type_synonym u16 = "16 word"
type_synonym u32 = "32 word"
type_synonym u64 = "64 word"

text \<open>\<open>time.Duration\<close> is an int64 number of nanoseconds, \<open>time.Time\<close> is counted in
  nanoseconds since the Unix epoch.\<close>

type_synonym duration = int
type_synonym go_time = int

abbreviation millisecond :: duration where "millisecond \<equiv> 1000000"
abbreviation second :: duration where "second \<equiv> 1000000000"
abbreviation minute :: duration where "minute \<equiv> 60000000000"
abbreviation hour :: duration where "hour \<equiv> 3600000000000"

named_theorems go_defs \<open>definitions of Go library operations, unfolded together\<close>
named_theorems op_defs \<open>definitions of the operations of a component\<close>
named_theorems inv_intros \<open>preservation of a component invariant by its operations\<close>

lemma unat_u8: "unat (a :: u8) < 256"
proof -
  have "unat a < 2 ^ LENGTH(8)" by (rule unsigned_less)
  then show ?thesis by simp
qed

lemma unat_u16: "unat (a :: u16) < 65536"
proof -
  have "unat a < 2 ^ LENGTH(16)" by (rule unsigned_less)
  then show ?thesis by simp
qed

lemma unat_u32: "unat (a :: u32) < 4294967296"
proof -
  have "unat a < 2 ^ LENGTH(32)" by (rule unsigned_less)
  then show ?thesis by simp
qed

lemma uint_u16: "uint (a :: u16) < 65536"
proof -
  have "uint a < 2 ^ LENGTH(16)" by (rule unsigned_less)
  then show ?thesis by simp
qed

lemma uint_u32: "uint (a :: u32) < 4294967296"
proof -
  have "uint a < 2 ^ LENGTH(32)" by (rule unsigned_less)
  then show ?thesis by simp
qed

section \<open>Integer arithmetic of Go\<close>

text \<open>Go's \<open>/\<close> and \<open>%\<close> on signed integers truncate towards zero.\<close>

definition go_quot :: "int \<Rightarrow> int \<Rightarrow> int" where
  "go_quot a b = sgn a * sgn b * (\<bar>a\<bar> div \<bar>b\<bar>)"

definition go_rem :: "int \<Rightarrow> int \<Rightarrow> int" where
  "go_rem a b = a - go_quot a b * b"

lemma go_quot_nonneg [simp]: "0 \<le> a \<Longrightarrow> 0 < b \<Longrightarrow> go_quot a b = a div b"
  by (cases "a = 0") (auto simp: go_quot_def sgn_if)

lemma go_rem_nonneg [simp]: "0 \<le> a \<Longrightarrow> 0 < b \<Longrightarrow> go_rem a b = a mod b"
  by (simp add: go_rem_def minus_div_mult_eq_mod)

lemma go_quot_neg: "a < 0 \<Longrightarrow> 0 < b \<Longrightarrow> go_quot a b \<le> 0"
  by (simp add: go_quot_def pos_imp_zdiv_nonneg_iff)

lemma int_div_lt: "0 < b \<Longrightarrow> a < c * b \<Longrightarrow> a div b < (c :: int)"
proof (rule ccontr)
  assume "0 < b" "a < c * b" "\<not> a div b < c"
  then have "c * b \<le> a div b * b" by (intro mult_right_mono) auto
  also have "\<dots> = a - a mod b" by (simp add: minus_mod_eq_div_mult)
  also have "\<dots> \<le> a" using \<open>0 < b\<close> by simp
  finally show False using \<open>a < c * b\<close> by simp
qed

text \<open>\<open>Time.Sub\<close> saturates at the ends of the int64 range.\<close>

definition max_int64 :: int where "max_int64 = 9223372036854775807"
definition min_int64 :: int where "min_int64 = - 9223372036854775808"

definition time_sub :: "go_time \<Rightarrow> go_time \<Rightarrow> duration" where
  "time_sub a b = max min_int64 (min max_int64 (a - b))"

lemma time_sub_self [simp]: "time_sub a a = 0"
  by (simp add: time_sub_def min_int64_def max_int64_def)

lemma time_sub_in_range:
  "min_int64 \<le> a - b \<Longrightarrow> a - b \<le> max_int64 \<Longrightarrow> time_sub a b = a - b"
  by (simp add: time_sub_def)

section \<open>Errors\<close>

text \<open>
  Go error values that the code creates or tests. \<open>Wrapped pre e post\<close> is
  \<open>fmt.Errorf\<close> with one \<open>%w\<close> verb (or a library error with an \<open>Unwrap\<close> method): its
  text is \<open>pre\<close>, the text of \<open>e\<close>, \<open>post\<close>, and \<open>errors.Is\<close> looks through it.
\<close>

datatype go_error =
    ErrText string                  \<comment> \<open>\<open>errors.New\<close>, \<open>fmt.Errorf\<close> without \<open>%w\<close>\<close>
  | ErrEOF                          \<comment> \<open>\<open>io.EOF\<close>\<close>
  | ErrClosedPipe                   \<comment> \<open>\<open>io.ErrClosedPipe\<close>\<close>
  | ErrNetClosed                    \<comment> \<open>\<open>net.ErrClosed\<close>\<close>
  | ErrCanceled                     \<comment> \<open>\<open>context.Canceled\<close>\<close>
  | ErrDeadlineExceeded             \<comment> \<open>\<open>context.DeadlineExceeded\<close>\<close>
  | ErrOSDeadline                   \<comment> \<open>\<open>os.ErrDeadlineExceeded\<close>\<close>
  | ErrInvalidSDP                   \<comment> \<open>\<open>media.ErrInvalidSDP\<close>\<close>
  | ErrNoInboundRTP                 \<comment> \<open>\<open>media.ErrNoInboundRTP\<close>\<close>
  | ErrMediaNotReady                \<comment> \<open>\<open>media.ErrNotReady\<close>\<close>
  | ErrBridgeNotReady               \<comment> \<open>\<open>livekitbridge.ErrNotReady\<close>\<close>
  | HTTPStatusError int string      \<comment> \<open>\<open>*meta.httpStatusError\<close>\<close>
  | NetOpError string go_error      \<comment> \<open>\<open>*net.OpError\<close>: its \<open>Op\<close> and the wrapped error\<close>
  | Wrapped string go_error string

type_synonym 'a result = "go_error + 'a"

text \<open>\<open>errors.Is\<close>: the error or anything it wraps is the target value.\<close>

primrec err_is :: "go_error \<Rightarrow> go_error \<Rightarrow> bool" where
  "err_is (ErrText s) t = (ErrText s = t)"
| "err_is ErrEOF t = (ErrEOF = t)"
| "err_is ErrClosedPipe t = (ErrClosedPipe = t)"
| "err_is ErrNetClosed t = (ErrNetClosed = t)"
| "err_is ErrCanceled t = (ErrCanceled = t)"
| "err_is ErrDeadlineExceeded t = (ErrDeadlineExceeded = t)"
| "err_is ErrOSDeadline t = (ErrOSDeadline = t)"
| "err_is ErrInvalidSDP t = (ErrInvalidSDP = t)"
| "err_is ErrNoInboundRTP t = (ErrNoInboundRTP = t)"
| "err_is ErrMediaNotReady t = (ErrMediaNotReady = t)"
| "err_is ErrBridgeNotReady t = (ErrBridgeNotReady = t)"
| "err_is (HTTPStatusError c m) t = (HTTPStatusError c m = t)"
| "err_is (NetOpError op e) t = (NetOpError op e = t \<or> err_is e t)"
| "err_is (Wrapped a e b) t = (Wrapped a e b = t \<or> err_is e t)"

lemma err_is_refl [simp]: "err_is e e"
  by (cases e) auto

text \<open>\<open>errors.As\<close> for the two concrete error types the code extracts.\<close>

primrec as_http_status :: "go_error \<Rightarrow> int option" where
  "as_http_status (ErrText s) = None"
| "as_http_status ErrEOF = None"
| "as_http_status ErrClosedPipe = None"
| "as_http_status ErrNetClosed = None"
| "as_http_status ErrCanceled = None"
| "as_http_status ErrDeadlineExceeded = None"
| "as_http_status ErrOSDeadline = None"
| "as_http_status ErrInvalidSDP = None"
| "as_http_status ErrNoInboundRTP = None"
| "as_http_status ErrMediaNotReady = None"
| "as_http_status ErrBridgeNotReady = None"
| "as_http_status (HTTPStatusError c m) = Some c"
| "as_http_status (NetOpError op e) = as_http_status e"
| "as_http_status (Wrapped a e b) = as_http_status e"

primrec as_net_op :: "go_error \<Rightarrow> string option" where
  "as_net_op (ErrText s) = None"
| "as_net_op ErrEOF = None"
| "as_net_op ErrClosedPipe = None"
| "as_net_op ErrNetClosed = None"
| "as_net_op ErrCanceled = None"
| "as_net_op ErrDeadlineExceeded = None"
| "as_net_op ErrOSDeadline = None"
| "as_net_op ErrInvalidSDP = None"
| "as_net_op ErrNoInboundRTP = None"
| "as_net_op ErrMediaNotReady = None"
| "as_net_op ErrBridgeNotReady = None"
| "as_net_op (HTTPStatusError c m) = None"
| "as_net_op (NetOpError op e) = Some op"
| "as_net_op (Wrapped a e b) = as_net_op e"

section \<open>Transition systems\<close>

text \<open>The states reachable from the initial states of a step relation.\<close>

inductive reach :: "('s \<Rightarrow> bool) \<Rightarrow> ('s \<Rightarrow> 's \<Rightarrow> bool) \<Rightarrow> 's \<Rightarrow> bool" for init step where
  reach_init: "init s \<Longrightarrow> reach init step s"
| reach_step: "reach init step s \<Longrightarrow> step s t \<Longrightarrow> reach init step t"

locale safe_system =
  fixes init :: "'s \<Rightarrow> bool"
    and step :: "'s \<Rightarrow> 's \<Rightarrow> bool"
    and inv :: "'s \<Rightarrow> bool"
  assumes inv_init: "init s \<Longrightarrow> inv s"
    and inv_step: "inv s \<Longrightarrow> step s t \<Longrightarrow> inv t"
begin

lemma reach_inv: "reach init step s \<Longrightarrow> inv s"
  by (induction rule: reach.induct) (auto intro: inv_init inv_step)

lemma steps_inv: "step\<^sup>*\<^sup>* s t \<Longrightarrow> inv s \<Longrightarrow> inv t"
  by (induction rule: rtranclp_induct) (auto intro: inv_step)

end

lemma reach_steps: "step\<^sup>*\<^sup>* s t \<Longrightarrow> reach init step s \<Longrightarrow> reach init step t"
  by (induction rule: rtranclp_induct) (auto intro: reach_step)

section \<open>One-shot channels\<close>

text \<open>
  A \<open>chan struct{}\<close> that is only ever closed, through \<open>sync.Once\<close> or under a mutex that
  tests it first. Closing a closed channel would panic, so what every client relies on is
  that closing again changes nothing.
\<close>

locale one_shot =
  fixes shut :: "'s \<Rightarrow> 's"
    and is_shut :: "'s \<Rightarrow> bool"
  assumes shut_is_shut: "is_shut (shut s)"
    and shut_again: "is_shut s \<Longrightarrow> shut s = s"
begin

lemma shut_idem: "shut (shut s) = shut s"
  by (simp add: shut_is_shut shut_again)

lemma shut_funpow: "0 < n \<Longrightarrow> (shut ^^ n) s = shut s"
proof (induction n)
  case (Suc n)
  then show ?case by (cases "n = 0") (auto simp: shut_idem)
qed simp

end

section \<open>Bounded channels\<close>

text \<open>
  A buffered channel as the list of queued values, oldest first. \<open>push\<close> is the
  component's own way of sending (blocking, dropping the newest or dropping the oldest);
  the contract is that the queue never exceeds the capacity and that no value is made up
  or reordered.
\<close>

locale bounded_channel =
  fixes cap :: nat
    and push :: "'a \<Rightarrow> 'a list \<Rightarrow> 'a list"
  assumes push_bound: "length q \<le> cap \<Longrightarrow> length (push x q) \<le> cap"
    and push_content: "\<exists>k. push x q = drop k (q @ [x]) \<or> push x q = q"
begin

lemma pushes_bound: "length q \<le> cap \<Longrightarrow> length (fold push xs q) \<le> cap"
  by (induction xs arbitrary: q) (auto intro: push_bound)

lemma push_set: "set (push x q) \<subseteq> insert x (set q)"
proof -
  from push_content [of x q] obtain k where "push x q = drop k (q @ [x]) \<or> push x q = q"
    by blast
  moreover have "set (drop k (q @ [x])) \<subseteq> insert x (set q)"
    using set_drop_subset [of k "q @ [x]"] by auto
  ultimately show ?thesis by auto
qed

lemma pushes_set: "set (fold push xs q) \<subseteq> set xs \<union> set q"
proof (induction xs arbitrary: q)
  case (Cons x xs)
  have "set (fold push xs (push x q)) \<subseteq> set xs \<union> set (push x q)" by (rule Cons.IH)
  with push_set [of x q] show ?case by auto
qed simp

end

end
