(* ===== verification/GoStrings.thy ===== *)
theory GoStrings
  imports Prelude
begin

text \<open>
  The parts of Go's \<open>strings\<close>, \<open>strconv\<close>, \<open>unicode/utf8\<close>, \<open>encoding/hex\<close> and
  \<open>net/netip\<close> packages that the connector calls, over byte strings (a Go string is a
  sequence of bytes, a HOL \<open>char\<close> is a byte), with the round trips between printing and
  parsing that the components rely on.
\<close>

section \<open>Bytes and runes\<close>

abbreviation byte :: "char \<Rightarrow> nat" where "byte c \<equiv> of_char c"

text \<open>\<open>utf8.DecodeRune\<close>: the code point of the first rune and its width. An invalid
  sequence is U+FFFD of width 1.\<close>

definition is_cont :: "nat \<Rightarrow> bool" where
  "is_cont b \<longleftrightarrow> 128 \<le> b \<and> b \<le> 191"

fun decode_rune :: "nat list \<Rightarrow> nat \<times> nat" where
  "decode_rune [] = (65533, 0)"
| "decode_rune (a # bs) =
     (if a < 128 then (a, 1)
      else case bs of
        [] \<Rightarrow> (65533, 1)
      | b # bs' \<Rightarrow>
          (if 194 \<le> a \<and> a \<le> 223 then
             (if is_cont b then ((a - 192) * 64 + (b - 128), 2) else (65533, 1))
           else case bs' of
             [] \<Rightarrow> (65533, 1)
           | c # bs'' \<Rightarrow>
               (if 224 \<le> a \<and> a \<le> 239 then
                  (if is_cont b \<and> is_cont c \<and> (a = 224 \<longrightarrow> 160 \<le> b) \<and> (a = 237 \<longrightarrow> b \<le> 159)
                   then ((a - 224) * 4096 + (b - 128) * 64 + (c - 128), 3) else (65533, 1))
                else case bs'' of
                  [] \<Rightarrow> (65533, 1)
                | d # _ \<Rightarrow>
                    (if 240 \<le> a \<and> a \<le> 244 \<and> is_cont b \<and> is_cont c \<and> is_cont d \<and>
                        (a = 240 \<longrightarrow> 144 \<le> b) \<and> (a = 244 \<longrightarrow> b \<le> 143)
                     then ((a - 240) * 262144 + (b - 128) * 4096 + (c - 128) * 64 + (d - 128), 4)
                     else (65533, 1)))))"

text \<open>A string as its runes, each with the bytes it was decoded from.\<close>

function runes :: "string \<Rightarrow> (nat \<times> string) list" where
  "runes [] = []"
| "runes (c # cs) =
     (case decode_rune (map byte (take 4 (c # cs))) of
        (r, w) \<Rightarrow> (r, c # take (w - 1) cs) # runes (drop (w - 1) cs))"
  by pat_completeness auto
termination
  by (relation "measure length") auto

lemma runes_bytes: "concat (map snd (runes s)) = s"
  by (induction s rule: runes.induct) (auto split: prod.splits)

definition is_ascii :: "string \<Rightarrow> bool" where
  "is_ascii s \<longleftrightarrow> list_all (\<lambda>c. byte c < 128) s"

lemma runes_ascii: "is_ascii s \<Longrightarrow> runes s = map (\<lambda>c. (byte c, [c])) s"
  by (induction s) (auto simp: is_ascii_def)

lemma is_ascii_append [simp]: "is_ascii (a @ b) \<longleftrightarrow> is_ascii a \<and> is_ascii b"
  by (simp add: is_ascii_def)

lemma is_ascii_Cons [simp]: "is_ascii (c # s) \<longleftrightarrow> byte c < 128 \<and> is_ascii s"
  by (simp add: is_ascii_def)

lemma is_ascii_Nil [simp]: "is_ascii []"
  by (simp add: is_ascii_def)

section \<open>White space\<close>

text \<open>\<open>unicode.IsSpace\<close>.\<close>

definition is_space :: "nat \<Rightarrow> bool" where
  "is_space r \<longleftrightarrow> r \<in> {9, 10, 11, 12, 13, 32, 133, 160, 5760, 8232, 8233, 8239, 8287, 12288} \<or>
     (8192 \<le> r \<and> r \<le> 8202)"

text \<open>\<open>strings.TrimSpace\<close>.\<close>

definition trim_space :: "string \<Rightarrow> string" where
  "trim_space s =
     (let sp = (\<lambda>p. is_space (fst p))
      in concat (map snd (rev (dropWhile sp (rev (dropWhile sp (runes s)))))))"

lemma trim_space_ascii:
  assumes "is_ascii s" "s \<noteq> []" "\<not> is_space (byte (hd s))" "\<not> is_space (byte (last s))"
  shows "trim_space s = s"
proof -
  obtain c cs where s: "s = c # cs" using assms(2) by (cases s) auto
  obtain ds d where s': "s = ds @ [d]" using assms(2) by (metis rev_exhaust)
  have "dropWhile (\<lambda>p. is_space (fst p)) (runes s) = runes s"
    using assms(1,3) by (simp add: runes_ascii) (simp add: s)
  moreover have "dropWhile (\<lambda>p. is_space (fst p)) (rev (runes s)) = rev (runes s)"
    using assms(1,4) by (simp add: runes_ascii rev_map) (simp add: s')
  ultimately show ?thesis by (simp add: trim_space_def runes_bytes)
qed

text \<open>\<open>strings.Fields\<close>: the maximal runs of non-space runes.\<close>

fun str_fields_of :: "(nat \<times> string) list \<Rightarrow> string \<Rightarrow> string list" where
  "str_fields_of [] cur = (if cur = [] then [] else [cur])"
| "str_fields_of ((r, b) # rs) cur =
     (if is_space r then (if cur = [] then str_fields_of rs [] else cur # str_fields_of rs [])
      else str_fields_of rs (cur @ b))"

definition str_fields :: "string \<Rightarrow> string list" where
  "str_fields s = str_fields_of (runes s) []"

definition no_space :: "string \<Rightarrow> bool" where
  "no_space s \<longleftrightarrow> is_ascii s \<and> list_all (\<lambda>c. \<not> is_space (byte c)) s"

lemma fields_of_word:
  "no_space w \<Longrightarrow> str_fields_of (map (\<lambda>c. (byte c, [c])) w @ rs) cur = str_fields_of rs (cur @ w)"
  by (induction w arbitrary: cur) (auto simp: no_space_def is_ascii_def)

lemma no_space_ascii: "no_space s \<Longrightarrow> is_ascii s"
  by (simp add: no_space_def)

text \<open>Two ASCII words separated by a blank are split back into those two words.\<close>

lemma str_fields_two:
  assumes "no_space a" "no_space b" "a \<noteq> []" "b \<noteq> []"
  shows "str_fields (a @ '' '' @ b) = [a, b]"
proof -
  have "is_ascii (a @ '' '' @ b)"
    using assms by (simp add: no_space_ascii)
  then have "str_fields (a @ '' '' @ b) =
      str_fields_of (map (\<lambda>c. (byte c, [c])) a @ (32, '' '') # map (\<lambda>c. (byte c, [c])) b) []"
    by (simp add: str_fields_def runes_ascii)
  also have "\<dots> = a # str_fields_of (map (\<lambda>c. (byte c, [c])) b) []"
    using assms by (simp add: fields_of_word is_space_def)
  also have "\<dots> = [a, b]"
    using assms fields_of_word [of b "[]" "[]"] by simp
  finally show ?thesis .
qed

section \<open>Prefixes and suffixes\<close>

text \<open>\<open>strings.HasPrefix\<close>, \<open>strings.TrimPrefix\<close>, \<open>strings.TrimRight\<close> with a one-byte
  cutset, \<open>strings.Join\<close>, \<open>strings.ReplaceAll\<close> of one byte.\<close>

definition has_prefix :: "string \<Rightarrow> string \<Rightarrow> bool" where
  "has_prefix s p \<longleftrightarrow> take (length p) s = p"

definition trim_prefix :: "string \<Rightarrow> string \<Rightarrow> string" where
  "trim_prefix s p = (if has_prefix s p then drop (length p) s else s)"

definition trim_right :: "string \<Rightarrow> char \<Rightarrow> string" where
  "trim_right s c = rev (dropWhile (\<lambda>x. x = c) (rev s))"

fun join :: "string list \<Rightarrow> string \<Rightarrow> string" where
  "join [] sep = []"
| "join [x] sep = x"
| "join (x # y # xs) sep = x @ sep @ join (y # xs) sep"

definition replace_all :: "char \<Rightarrow> string \<Rightarrow> string \<Rightarrow> string" where
  "replace_all c new s = concat (map (\<lambda>x. if x = c then new else [x]) s)"

lemma trim_prefix_append [simp]: "trim_prefix (p @ s) p = s"
  by (simp add: trim_prefix_def has_prefix_def)

lemma replace_all_filter: "replace_all c [] s = filter (\<lambda>x. x \<noteq> c) s"
  by (induction s) (auto simp: replace_all_def)

lemma replace_all_absent: "c \<notin> set new \<Longrightarrow> c \<notin> set (replace_all c new s)"
  by (induction s) (auto simp: replace_all_def)

section \<open>Letter case\<close>

definition ascii_lower :: "char \<Rightarrow> char" where
  "ascii_lower c = (if 65 \<le> byte c \<and> byte c \<le> 90 then char_of (byte c + 32) else c)"

definition ascii_upper :: "char \<Rightarrow> char" where
  "ascii_upper c = (if 97 \<le> byte c \<and> byte c \<le> 122 then char_of (byte c - 32) else c)"

text \<open>
  \<open>strings.ToLower\<close>. Beyond ASCII only U+0130 and U+212A have an ASCII lower case; every
  other rune is kept as it is, which is exact for the comparisons with ASCII constants
  that the code makes with the result.
\<close>

definition to_lower :: "string \<Rightarrow> string" where
  "to_lower s = concat (map (\<lambda>(r, b).
     if r < 128 then map ascii_lower b
     else if r = 304 then ''i'' else if r = 8490 then ''k'' else b) (runes s))"

text \<open>\<open>strings.ToUpper\<close> on the ASCII strings it is applied to (hexadecimal digits and
  colons).\<close>

definition to_upper :: "string \<Rightarrow> string" where
  "to_upper s = map ascii_upper s"

text \<open>
  \<open>strings.EqualFold\<close>, exact whenever one side is ASCII (it always is: a constant or a
  computed fingerprint): the only non-ASCII runes that fold to ASCII are U+017F (to s) and
  U+212A (to k).
\<close>

definition fold_case :: "string \<Rightarrow> string" where
  "fold_case s = concat (map (\<lambda>(r, b).
     if r < 128 then map ascii_lower b
     else if r = 383 then ''s'' else if r = 8490 then ''k'' else b) (runes s))"

definition equal_fold :: "string \<Rightarrow> string \<Rightarrow> bool" where
  "equal_fold s t \<longleftrightarrow> fold_case s = fold_case t"

lemma equal_fold_refl [simp]: "equal_fold s s"
  by (simp add: equal_fold_def)

lemma fold_case_ascii: "is_ascii s \<Longrightarrow> fold_case s = map ascii_lower s"
  by (induction s) (auto simp: fold_case_def runes_ascii)

lemma to_lower_ascii: "is_ascii s \<Longrightarrow> to_lower s = map ascii_lower s"
  by (induction s) (auto simp: to_lower_def runes_ascii)

section \<open>Decimal numbers\<close>

definition digit_char :: "nat \<Rightarrow> char" where
  "digit_char d = char_of (48 + d)"

fun show_nat :: "nat \<Rightarrow> string" where
  "show_nat n = (if n < 10 then [digit_char n] else show_nat (n div 10) @ [digit_char (n mod 10)])"

declare show_nat.simps [simp del]

text \<open>\<open>strconv.Itoa\<close>, and the \<open>%d\<close> verb.\<close>

definition itoa :: "int \<Rightarrow> string" where
  "itoa i = (if i < 0 then ''-'' @ show_nat (nat (- i)) else show_nat (nat i))"

definition is_digit :: "char \<Rightarrow> bool" where
  "is_digit c \<longleftrightarrow> 48 \<le> byte c \<and> byte c \<le> 57"

definition digits_value :: "string \<Rightarrow> int" where
  "digits_value s = foldl (\<lambda>n c. 10 * n + (of_char c - 48)) 0 s"

text \<open>\<open>strconv.Atoi\<close>: an optional sign and one or more digits within the int64 range.\<close>

definition atoi :: "string \<Rightarrow> int option" where
  "atoi s =
     (let neg = (take 1 s = ''-'');
          ds = (if take 1 s = ''-'' \<or> take 1 s = ''+'' then drop 1 s else s);
          v = (if neg then - digits_value ds else digits_value ds)
      in if ds = [] \<or> \<not> list_all is_digit ds \<or> v < min_int64 \<or> max_int64 < v then None else Some v)"

lemma is_digit_digit_char: "d < 10 \<Longrightarrow> is_digit (digit_char d)"
  by (simp add: is_digit_def digit_char_def)

lemma show_nat_digits: "list_all is_digit (show_nat n)"
proof (induction n rule: show_nat.induct)
  case (1 n)
  then show ?case
    by (subst show_nat.simps) (auto simp: is_digit_digit_char)
qed

lemma show_nat_nonempty: "show_nat n \<noteq> []"
  by (subst show_nat.simps) simp

lemma of_char_digit_char: "d < 10 \<Longrightarrow> of_char (digit_char d) = 48 + int d"
proof -
  assume "d < 10"
  then have "byte (digit_char d) = 48 + d" by (simp add: digit_char_def)
  then have "int (byte (digit_char d)) = 48 + int d" by simp
  then show ?thesis by (simp add: of_nat_of_char)
qed

lemma digits_value_snoc: "digits_value (s @ [c]) = 10 * digits_value s + (of_char c - 48)"
  by (simp add: digits_value_def)

lemma digits_value_show_nat [simp]: "digits_value (show_nat n) = int n"
proof (induction n rule: show_nat.induct)
  case (1 n)
  show ?case
  proof (cases "n < 10")
    case True
    then show ?thesis
      by (subst show_nat.simps) (simp add: digits_value_def of_char_digit_char)
  next
    case False
    with "1.IH" have "digits_value (show_nat (n div 10)) = int (n div 10)" by simp
    with False show ?thesis
      by (subst show_nat.simps) (simp add: digits_value_snoc of_char_digit_char zdiv_int zmod_int)
  qed
qed

lemma digit_not_sign:
  assumes "is_digit c" shows "c \<noteq> CHR ''-''" "c \<noteq> CHR ''+''"
  using assms by (auto simp: is_digit_def)

text \<open>Parsing a printed number gives it back.\<close>

lemma atoi_itoa:
  assumes "min_int64 \<le> i" "i \<le> max_int64"
  shows "atoi (itoa i) = Some i"
proof (cases "i < 0")
  case True
  then show ?thesis
    using assms by (simp add: atoi_def itoa_def show_nat_digits show_nat_nonempty Let_def)
next
  case False
  obtain c cs where s: "show_nat (nat i) = c # cs"
    using show_nat_nonempty by (meson neq_Nil_conv)
  with show_nat_digits [of "nat i"] have "is_digit c" by simp
  then have "c \<noteq> CHR ''-''" "c \<noteq> CHR ''+''" by (auto dest: digit_not_sign)
  moreover have "digits_value (c # cs) = i"
    using digits_value_show_nat [of "nat i"] s False by simp
  moreover have "list_all is_digit (c # cs)"
    using show_nat_digits [of "nat i"] s by simp
  ultimately show ?thesis
    using assms False s by (simp add: atoi_def itoa_def Let_def)
qed

lemma digit_no_space: "is_digit c \<Longrightarrow> byte c < 128 \<and> \<not> is_space (byte c)"
  by (auto simp: is_digit_def is_space_def)

lemma no_space_digits: "list_all is_digit s \<Longrightarrow> no_space s"
  by (induction s) (auto simp: no_space_def is_ascii_def dest: digit_no_space)

section \<open>Durations\<close>

text \<open>\<open>Duration.String\<close>: the last \<open>prec\<close> decimal digits of a number as a fraction without
  trailing zeros, then hours, minutes and seconds, or one unit below a second.\<close>

primrec frac_digits :: "nat \<Rightarrow> int \<Rightarrow> string" where
  "frac_digits 0 v = []"
| "frac_digits (Suc k) v = frac_digits k (v div 10) @ [digit_char (nat (v mod 10))]"

definition frac_text :: "int \<Rightarrow> nat \<Rightarrow> string" where
  "frac_text v prec =
     (let kept = trim_right (frac_digits prec v) CHR ''0'' in if kept = [] then [] else CHR ''.'' # kept)"

definition duration_string :: "duration \<Rightarrow> string" where
  "duration_string d =
     (let u = \<bar>d\<bar>; secs = u div 1000000000; mins = secs div 60; hours = mins div 60;
          text = (if u = 0 then ''0s''
                  else if u < 1000 then itoa u @ ''ns''
                  else if u < 1000000 then itoa (u div 1000) @ frac_text u 3 @ [CHR 0xC2, CHR 0xB5, CHR ''s'']
                  else if u < 1000000000 then itoa (u div 1000000) @ frac_text u 6 @ ''ms''
                  else (if hours = 0 then [] else itoa hours @ ''h'') @
                       (if mins = 0 then [] else itoa (mins mod 60) @ ''m'') @
                       itoa (secs mod 60) @ frac_text u 9 @ ''s'')
      in if d < 0 then CHR ''-'' # text else text)"

section \<open>Error texts\<close>

text \<open>\<open>Error()\<close>. The text of a \<open>*net.OpError\<close> also names addresses, which are left out.\<close>

primrec err_text :: "go_error \<Rightarrow> string" where
  "err_text (ErrText s) = s"
| "err_text ErrEOF = ''EOF''"
| "err_text ErrClosedPipe = ''io: read/write on closed pipe''"
| "err_text ErrNetClosed = ''use of closed network connection''"
| "err_text ErrCanceled = ''context canceled''"
| "err_text ErrDeadlineExceeded = ''context deadline exceeded''"
| "err_text ErrOSDeadline = ''i/o timeout''"
| "err_text ErrInvalidSDP = ''invalid Meta DTLS-SRTP SDP''"
| "err_text ErrNoInboundRTP = ''no inbound RTP received''"
| "err_text ErrMediaNotReady = ''meta media path not ready''"
| "err_text ErrBridgeNotReady = ''meta media path not ready''"
| "err_text (HTTPStatusError c m) = ''Meta calls API returned HTTP '' @ itoa c @ '': '' @ m"
| "err_text (NetOpError op e) = op @ '': '' @ err_text e"
| "err_text (Wrapped a e b) = a @ err_text e @ b"

section \<open>Hexadecimal\<close>

definition hex_val :: "char \<Rightarrow> nat option" where
  "hex_val c =
     (let b = byte c in
      if 48 \<le> b \<and> b \<le> 57 then Some (b - 48)
      else if 97 \<le> b \<and> b \<le> 102 then Some (b - 87)
      else if 65 \<le> b \<and> b \<le> 70 then Some (b - 55)
      else None)"

text \<open>\<open>hex.DecodeString\<close>: fails on an odd length or a byte that is not a hex digit.\<close>

fun hex_decode :: "string \<Rightarrow> nat list option" where
  "hex_decode [] = Some []"
| "hex_decode [_] = None"
| "hex_decode (a # b # s) =
     (case (hex_val a, hex_val b) of
        (Some x, Some y) \<Rightarrow> map_option (\<lambda>bs. (16 * x + y) # bs) (hex_decode s)
      | _ \<Rightarrow> None)"

definition hex_digit :: "bool \<Rightarrow> nat \<Rightarrow> char" where
  "hex_digit upper d = char_of (if d < 10 then 48 + d else if upper then 55 + d else 87 + d)"

definition hex_byte :: "bool \<Rightarrow> nat \<Rightarrow> string" where
  "hex_byte upper b = [hex_digit upper (b div 16), hex_digit upper (b mod 16)]"

text \<open>\<open>hex.EncodeToString\<close>, and the fingerprint format: \<open>%02X\<close> of each byte joined by
  colons.\<close>

definition hex_encode :: "nat list \<Rightarrow> string" where
  "hex_encode bs = concat (map (hex_byte False) bs)"

definition colon_hex :: "nat list \<Rightarrow> string" where
  "colon_hex bs = join (map (hex_byte True) bs) '':''"

lemma hex_val_digit: "d < 16 \<Longrightarrow> hex_val (hex_digit u d) = Some d"
  by (auto simp: hex_val_def hex_digit_def Let_def)

lemma hex_decode_byte:
  "b < 256 \<Longrightarrow> hex_decode (hex_byte u b @ s) = map_option (\<lambda>bs. b # bs) (hex_decode s)"
  by (simp add: hex_byte_def hex_val_digit)

lemma hex_decode_encode: "list_all (\<lambda>b. b < 256) bs \<Longrightarrow> hex_decode (hex_encode bs) = Some bs"
  by (induction bs) (auto simp: hex_encode_def hex_decode_byte)

lemma hex_encode_length: "length (hex_encode bs) = 2 * length bs"
  by (induction bs) (auto simp: hex_encode_def hex_byte_def)

lemma hex_digit_not_colon: "d < 16 \<Longrightarrow> hex_digit u d \<noteq> CHR '':''"
proof
  assume "d < 16" "hex_digit u d = CHR '':''"
  then have "hex_val CHR '':'' = Some d" using hex_val_digit [of d u] by simp
  then show False by (simp add: hex_val_def)
qed

lemma filter_hex_byte:
  "b < 256 \<Longrightarrow> filter (\<lambda>x. x \<noteq> CHR '':'') (hex_byte u b) = hex_byte u b"
  by (simp add: hex_byte_def hex_digit_not_colon)

lemma filter_colon_hex:
  "list_all (\<lambda>b. b < 256) bs \<Longrightarrow>
   filter (\<lambda>x. x \<noteq> CHR '':'') (colon_hex bs) = concat (map (hex_byte True) bs)"
proof (induction bs)
  case (Cons b bs)
  then show ?case
    by (cases bs) (auto simp: colon_hex_def filter_hex_byte)
qed (simp add: colon_hex_def)

text \<open>Removing the colons of a fingerprint and decoding it gives the digest back.\<close>

lemma hex_decode_colon_hex:
  assumes "list_all (\<lambda>b. b < 256) bs"
  shows "hex_decode (replace_all CHR '':'' [] (colon_hex bs)) = Some bs"
proof -
  have "hex_decode (concat (map (hex_byte True) bs)) = Some bs"
    using assms by (induction bs) (auto simp: hex_decode_byte)
  with assms show ?thesis by (simp add: replace_all_filter filter_colon_hex)
qed

section \<open>IPv4 addresses\<close>

type_synonym ipv4 = "u8 \<times> u8 \<times> u8 \<times> u8"

text \<open>
  \<open>netip.ParseAddr\<close> followed by \<open>Addr.Is4\<close>. \<open>ParseAddr\<close> takes the first of dot, colon
  and percent sign to decide on the family; the IPv4 form is four decimal fields of one to
  three digits, at most 255, without leading zeros.
\<close>

fun split_on :: "char \<Rightarrow> string \<Rightarrow> string list" where
  "split_on c [] = [[]]"
| "split_on c (x # xs) =
     (if x = c then [] # split_on c xs
      else case split_on c xs of [] \<Rightarrow> [[x]] | w # ws \<Rightarrow> (x # w) # ws)"

definition ipv4_field :: "string \<Rightarrow> u8 option" where
  "ipv4_field s =
     (if s = [] \<or> 3 < length s \<or> \<not> list_all is_digit s \<or> (1 < length s \<and> take 1 s = ''0'') \<or>
         255 < digits_value s
      then None else Some (word_of_int (digits_value s)))"

definition parse_addr4 :: "string \<Rightarrow> ipv4 option" where
  "parse_addr4 s =
     (case map ipv4_field (split_on CHR ''.'' s) of
        [Some a, Some b, Some c, Some d] \<Rightarrow> Some (a, b, c, d)
      | _ \<Rightarrow> None)"

text \<open>\<open>Addr.String\<close> of an IPv4 address.\<close>

fun show_ipv4 :: "ipv4 \<Rightarrow> string" where
  "show_ipv4 (a, b, c, d) =
     show_nat (unat a) @ ''.'' @ show_nat (unat b) @ ''.'' @ show_nat (unat c) @ ''.'' @ show_nat (unat d)"

lemma split_on_word: "c \<notin> set w \<Longrightarrow> split_on c (w @ c # s) = w # split_on c s"
  by (induction w) auto

lemma split_on_last: "c \<notin> set w \<Longrightarrow> split_on c w = [w]"
  by (induction w) auto

lemma dot_not_in_show_nat: "CHR ''.'' \<notin> set (show_nat n)"
  using show_nat_digits [of n] by (auto simp: list_all_iff is_digit_def)

lemma show_nat_2: "10 \<le> n \<Longrightarrow> n < 100 \<Longrightarrow> show_nat n = [digit_char (n div 10), digit_char (n mod 10)]"
proof -
  assume "10 \<le> n" "n < 100"
  then have "n div 10 < 10" by linarith
  with \<open>10 \<le> n\<close> show ?thesis by (simp add: show_nat.simps [of n] show_nat.simps [of "n div 10"])
qed

lemma show_nat_3:
  "100 \<le> n \<Longrightarrow> n < 1000 \<Longrightarrow>
   show_nat n = [digit_char (n div 100), digit_char (n div 10 mod 10), digit_char (n mod 10)]"
  by (subst show_nat.simps, subst show_nat_2) (auto simp: div_mult2_eq [symmetric])

lemma digit_char_0: "d < 10 \<Longrightarrow> 0 < d \<Longrightarrow> digit_char d \<noteq> CHR ''0''"
proof
  assume d: "d < 10" "0 < d" "digit_char d = CHR ''0''"
  then have "byte (char_of (48 + d)) = byte CHR ''0''" by (simp add: digit_char_def)
  with d show False by simp
qed

lemma ipv4_field_show: "ipv4_field (show_nat (unat (a :: u8))) = Some a"
proof -
  have le: "unat a \<le> 255" using unat_u8 [of a] by simp
  consider "unat a < 10" | "10 \<le> unat a" "unat a < 100" | "100 \<le> unat a" by linarith
  then have "length (show_nat (unat a)) \<le> 3 \<and>
      (1 < length (show_nat (unat a)) \<longrightarrow> take 1 (show_nat (unat a)) \<noteq> ''0'')"
  proof cases
    case 1
    then show ?thesis by (simp add: show_nat.simps)
  next
    case 2
    then show ?thesis by (simp add: show_nat_2 digit_char_0)
  next
    case 3
    with le show ?thesis by (simp add: show_nat_3 digit_char_0)
  qed
  then have "ipv4_field (show_nat (unat a)) = Some (word_of_int (int (unat a)))"
    using le by (simp add: ipv4_field_def show_nat_nonempty show_nat_digits del: of_nat_unat)
  then show ?thesis by simp
qed

text \<open>Parsing a printed IPv4 address gives it back.\<close>

lemma parse_addr4_show: "parse_addr4 (show_ipv4 ip) = Some ip"
  by (cases ip)
     (simp add: parse_addr4_def split_on_word split_on_last dot_not_in_show_nat ipv4_field_show)

end
