(* ===== verification/Sdp.thy ===== *)
theory Sdp
  imports GoStrings
begin

text \<open>
  \<open>internal/media/sdp.go\<close>: the SDP offer/answer negotiation with Meta. Third-party and
  environment code is an argument: \<open>unmarshal\<close> is the SDP parser (pion/sdp),
  \<open>unmarshalCandidate\<close> the ICE candidate parser (pion/ice), \<open>rand\<close> the random source,
  \<open>sha256\<close> the digest, \<open>now\<close> the clock. An SDP session is kept at the level the code
  reads: media sections with media type, protocols, formats and attributes, and session
  attributes. \<open>ApplyAnswer\<close> updates its negotiation in place, also on one error path; the
  model returns the updated value next to the error.
\<close>

section \<open>Data\<close>

datatype netip_addr = Addr4 ipv4 | AddrOther string

primrec Is4 :: "netip_addr \<Rightarrow> bool" where
  "Is4 (Addr4 ip) = True"
| "Is4 (AddrOther s) = False"

primrec addr_String :: "netip_addr \<Rightarrow> string" where
  "addr_String (Addr4 ip) = show_ipv4 ip"
| "addr_String (AddrOther s) = s"

record Certificate =
  ct_raw :: "nat list"
  ct_Fingerprint :: string

record ICECandidate =
  ic_Raw :: string
  ic_Address :: "ipv4 \<times> u16"
  ic_Foundation :: string
  ic_Priority :: u32
  ic_Type :: nat

record Negotiation =
  ng_RemoteFingerprint :: string
  ng_RemoteSetup :: string
  ng_LocalSetup :: string
  ng_IsClient :: bool
  ng_Certificate :: "Certificate option"
  ng_RemoteUfrag :: string
  ng_RemotePwd :: string
  ng_LocalUfrag :: string
  ng_LocalPwd :: string
  ng_RemoteCandidates :: "ICECandidate list"
  ng_Local :: "netip_addr \<times> u16"
  ng_PayloadType :: u8
  ng_Answer :: string

text \<open>What the SDP and candidate parsers deliver.\<close>

type_synonym attributes = "(string \<times> string) list"

record media_desc =
  md_Media :: string
  md_Protos :: "string list"
  md_Formats :: "string list"
  md_Attributes :: attributes

record session_desc =
  sd_Attributes :: attributes
  sd_Media :: "media_desc list"

record parsed_candidate =
  pc_Component :: nat
  pc_UDP4 :: bool
  pc_Address :: string
  pc_Port :: int
  pc_Marshal :: string
  pc_Foundation :: string
  pc_Priority :: u32
  pc_Type :: nat

type_synonym sdp_parser = "string \<Rightarrow> session_desc result"
type_synonym candidate_parser = "string \<Rightarrow> parsed_candidate option"

text \<open>\<open>fmt.Errorf("%w: ...", ErrInvalidSDP)\<close>.\<close>

definition sdp_error :: "string \<Rightarrow> go_error" where
  "sdp_error msg = Wrapped [] ErrInvalidSDP ('': '' @ msg)"

section \<open>Certificates and credentials\<close>

definition fingerprint_of :: "nat list \<Rightarrow> string" where
  "fingerprint_of digest = colon_hex digest"

text \<open>\<open>NewCertificate\<close>: \<open>create\<close> stands for key generation, serial number and
  \<open>x509.CreateCertificate\<close>, each of which may fail.\<close>

definition NewCertificate :: "nat list result \<Rightarrow> (nat list \<Rightarrow> nat list) \<Rightarrow> Certificate result" where
  "NewCertificate create sha256 =
     (case create of
        Inl e \<Rightarrow> Inl e
      | Inr raw \<Rightarrow> Inr \<lparr>ct_raw = raw, ct_Fingerprint = fingerprint_of (sha256 raw)\<rparr>)"

definition credential :: "(nat \<Rightarrow> nat list result) \<Rightarrow> nat \<Rightarrow> string result" where
  "credential rand n = (case rand n of Inl e \<Rightarrow> Inl e | Inr b \<Rightarrow> Inr (hex_encode b))"

section \<open>Attributes\<close>

fun attr_in :: "attributes \<Rightarrow> string \<Rightarrow> string option" where
  "attr_in [] key = None"
| "attr_in ((k, v) # as) key = (if k = key then Some v else attr_in as key)"

definition attr :: "media_desc \<Rightarrow> string \<Rightarrow> string option" where
  "attr m key = attr_in (md_Attributes m) key"

definition sattr :: "session_desc \<Rightarrow> string \<Rightarrow> string option" where
  "sattr s key = attr_in (sd_Attributes s) key"

text \<open>The media attribute, or else the session attribute.\<close>

definition attr_or_session :: "media_desc \<Rightarrow> session_desc \<Rightarrow> string \<Rightarrow> string option" where
  "attr_or_session m s key = (case attr m key of Some v \<Rightarrow> Some v | None \<Rightarrow> sattr s key)"

definition compatible :: "media_desc \<Rightarrow> bool" where
  "compatible m \<longleftrightarrow> md_Media m = ''audio'' \<and> equal_fold (join (md_Protos m) ''/'') ''UDP/TLS/RTP/SAVPF''"

definition compatibleAudio :: "sdp_parser \<Rightarrow> string \<Rightarrow> (media_desc \<times> session_desc) result" where
  "compatibleAudio unmarshal raw =
     (case unmarshal raw of
        Inl e \<Rightarrow> Inl (sdp_error (err_text e))
      | Inr session \<Rightarrow>
          (case List.find compatible (sd_Media session) of
             Some m \<Rightarrow> Inr (m, session)
           | None \<Rightarrow> Inl (sdp_error ''compatible audio media missing'')))"

definition offeredFormat :: "media_desc \<Rightarrow> string \<Rightarrow> bool" where
  "offeredFormat m format \<longleftrightarrow> format \<in> set (md_Formats m)"

fun opus_in :: "media_desc \<Rightarrow> attributes \<Rightarrow> u8 result" where
  "opus_in m [] = Inl (sdp_error ''opus/48000/2 missing'')"
| "opus_in m ((k, v) # as) =
     (if k \<noteq> ''rtpmap'' then opus_in m as
      else case str_fields v of
        [fmt, codec] \<Rightarrow>
          (if \<not> equal_fold codec ''opus/48000/2'' then opus_in m as
           else case atoi fmt of
             Some i \<Rightarrow> if 0 \<le> i \<and> i \<le> 127 \<and> offeredFormat m fmt then Inr (word_of_int i) else opus_in m as
           | None \<Rightarrow> opus_in m as)
      | _ \<Rightarrow> opus_in m as)"

definition opusPayload :: "media_desc \<Rightarrow> u8 result" where
  "opusPayload m = opus_in m (md_Attributes m)"

text \<open>One candidate attribute: ignored unless it parses to a component 1 UDP/IPv4 candidate
  with a valid address and port.\<close>

definition usable_candidate :: "candidate_parser \<Rightarrow> string \<Rightarrow> ICECandidate option" where
  "usable_candidate unmarshalCandidate v =
     (case unmarshalCandidate v of
        None \<Rightarrow> None
      | Some c \<Rightarrow>
          if pc_Component c \<noteq> 1 \<or> \<not> pc_UDP4 c then None
          else case parse_addr4 (pc_Address c) of
            None \<Rightarrow> None
          | Some ip \<Rightarrow>
              if pc_Port c < 1 \<or> 65535 < pc_Port c then None
              else Some \<lparr>ic_Raw = pc_Marshal c, ic_Address = (ip, word_of_int (pc_Port c)),
                         ic_Foundation = pc_Foundation c, ic_Priority = pc_Priority c, ic_Type = pc_Type c\<rparr>)"

fun candidates_in :: "candidate_parser \<Rightarrow> string set \<Rightarrow> attributes \<Rightarrow> ICECandidate list" where
  "candidates_in uc seen [] = []"
| "candidates_in uc seen ((k, v) # as) =
     (if k \<noteq> ''candidate'' then candidates_in uc seen as
      else case usable_candidate uc v of
        None \<Rightarrow> candidates_in uc seen as
      | Some c \<Rightarrow>
          if ic_Raw c \<in> seen then candidates_in uc seen as
          else c # candidates_in uc (insert (ic_Raw c) seen) as)"

definition remoteCandidates :: "candidate_parser \<Rightarrow> media_desc \<Rightarrow> ICECandidate list result" where
  "remoteCandidates uc m =
     (let out = candidates_in uc {} (md_Attributes m)
      in if out = [] then Inl (ErrText ''supported component-1 UDP candidate missing'') else Inr out)"

text \<open>The fingerprint attribute: hash name and colon-separated digest; the digest as written.\<close>

definition check_fingerprint :: "string \<Rightarrow> string result" where
  "check_fingerprint fp =
     (case str_fields fp of
        [h, d] \<Rightarrow>
          if \<not> equal_fold h ''sha-256'' then Inl (sdp_error ''SHA-256 fingerprint required'')
          else case hex_decode (replace_all CHR '':'' [] d) of
            None \<Rightarrow> Inl (sdp_error ''malformed fingerprint'')
          | Some decoded \<Rightarrow>
              if length decoded \<noteq> 32 then Inl (sdp_error ''malformed fingerprint'') else Inr d
      | _ \<Rightarrow> Inl (sdp_error ''SHA-256 fingerprint required''))"

section \<open>Building the local description\<close>

definition crlf :: string where "crlf = [CHR 0x0D, CHR 0x0A]"

text \<open>The session id printed with \<open>%d\<close> is the clock in nanoseconds as an unsigned number.\<close>

definition session_id :: "go_time \<Rightarrow> string" where
  "session_id now = show_nat (unat (word_of_int now :: u64))"

definition cert_fingerprint :: "Negotiation \<Rightarrow> string" where
  "cert_fingerprint n = (case ng_Certificate n of Some c \<Rightarrow> ct_Fingerprint c | None \<Rightarrow> [])"

definition build_description :: "go_time \<Rightarrow> string \<Rightarrow> string \<Rightarrow> Negotiation \<Rightarrow> string" where
  "build_description now pt setup n =
     (let ip = addr_String (fst (ng_Local n)); port = show_nat (unat (snd (ng_Local n)))
      in concat (map (\<lambda>l. l @ crlf)
          [''v=0'',
           ''o=- '' @ session_id now @ '' 2 IN IP4 '' @ ip,
           ''s=-'',
           ''t=0 0'',
           ''a=group:BUNDLE 0'',
           ''a=msid-semantic: WMS'',
           ''m=audio '' @ port @ '' UDP/TLS/RTP/SAVPF '' @ pt,
           ''c=IN IP4 '' @ ip,
           ''a=mid:0'',
           ''a=sendrecv'',
           ''a=rtcp-mux'',
           ''a=rtpmap:'' @ pt @ '' opus/48000/2'',
           ''a=fmtp:'' @ pt @ '' minptime=10;useinbandfec=1'',
           ''a=ice-ufrag:'' @ ng_LocalUfrag n,
           ''a=ice-pwd:'' @ ng_LocalPwd n,
           ''a=candidate:1 1 udp 2130706431 '' @ ip @ '' '' @ port @ '' typ host'',
           ''a=end-of-candidates'',
           ''a=fingerprint:sha-256 '' @ cert_fingerprint n,
           ''a=setup:'' @ setup]))"

definition buildAnswer :: "go_time \<Rightarrow> Negotiation \<Rightarrow> string" where
  "buildAnswer now n = build_description now (show_nat (unat (ng_PayloadType n))) (ng_LocalSetup n) n"

definition buildOffer :: "go_time \<Rightarrow> Negotiation \<Rightarrow> string" where
  "buildOffer now n = build_description now ''111'' ''actpass'' n"

definition NewOffer :: "(nat \<Rightarrow> nat list result) \<Rightarrow> go_time \<Rightarrow> Certificate option \<Rightarrow> netip_addr \<Rightarrow> int \<Rightarrow> Negotiation result" where
  "NewOffer rand now cert publicIP port =
     (if cert = None \<or> \<not> Is4 publicIP \<or> port < 1 \<or> 65535 < port
      then Inl (sdp_error ''invalid local transport'')
      else case credential rand 8 of
        Inl e \<Rightarrow> Inl e
      | Inr lu \<Rightarrow> (case credential rand 24 of
          Inl e \<Rightarrow> Inl e
        | Inr lp \<Rightarrow>
            let n = \<lparr>ng_RemoteFingerprint = [], ng_RemoteSetup = [], ng_LocalSetup = ''actpass'',
                     ng_IsClient = False, ng_Certificate = cert, ng_RemoteUfrag = [], ng_RemotePwd = [],
                     ng_LocalUfrag = lu, ng_LocalPwd = lp, ng_RemoteCandidates = [],
                     ng_Local = (publicIP, word_of_int port), ng_PayloadType = 111, ng_Answer = []\<rparr>
            in Inr (n\<lparr>ng_Answer := buildOffer now n\<rparr>)))"

section \<open>Accepting an offer\<close>

text \<open>The certificate is never nil here: the manager passes the one it has just created (a
  nil one would panic in \<open>buildAnswer\<close>).\<close>

definition ParseOfferAndAnswer :: "sdp_parser \<Rightarrow> candidate_parser \<Rightarrow> (nat \<Rightarrow> nat list result) \<Rightarrow> go_time \<Rightarrow>
    string \<Rightarrow> Certificate \<Rightarrow> netip_addr \<Rightarrow> int \<Rightarrow> Negotiation result" where
  "ParseOfferAndAnswer unmarshal uc rand now raw cert publicIP port =
     (case compatibleAudio unmarshal raw of
        Inl e \<Rightarrow> Inl e
      | Inr (m, offer) \<Rightarrow>
     (case attr_or_session m offer ''fingerprint'' of
        None \<Rightarrow> Inl (sdp_error ''fingerprint missing'')
      | Some fp \<Rightarrow>
     (case check_fingerprint fp of
        Inl e \<Rightarrow> Inl e
      | Inr digest \<Rightarrow>
     (case attr_or_session m offer ''setup'' of
        None \<Rightarrow> Inl (sdp_error ''setup missing'')
      | Some setup \<Rightarrow>
      if attr m ''rtcp-mux'' = None then Inl (sdp_error ''rtcp-mux required'')
      else
     (case attr_or_session m offer ''ice-ufrag'' of
        None \<Rightarrow> Inl (sdp_error ''ICE ufrag missing'')
      | Some ufrag \<Rightarrow>
      if ufrag = [] then Inl (sdp_error ''ICE ufrag missing'')
      else
     (case attr_or_session m offer ''ice-pwd'' of
        None \<Rightarrow> Inl (sdp_error ''ICE password missing'')
      | Some pwd \<Rightarrow>
      if pwd = [] then Inl (sdp_error ''ICE password missing'')
      else
     (case opusPayload m of
        Inl e \<Rightarrow> Inl e
      | Inr pt \<Rightarrow>
     (case remoteCandidates uc m of
        Inl e \<Rightarrow> Inl (sdp_error (err_text e))
      | Inr cands \<Rightarrow>
     (case credential rand 8 of
        Inl e \<Rightarrow> Inl e
      | Inr lu \<Rightarrow>
     (case credential rand 24 of
        Inl e \<Rightarrow> Inl e
      | Inr lp \<Rightarrow>
      let n = \<lparr>ng_RemoteFingerprint = to_upper digest, ng_RemoteSetup = to_lower setup, ng_LocalSetup = [],
               ng_IsClient = False, ng_Certificate = Some cert, ng_RemoteUfrag = ufrag, ng_RemotePwd = pwd,
               ng_LocalUfrag = lu, ng_LocalPwd = lp, ng_RemoteCandidates = cands,
               ng_Local = (publicIP, word_of_int port), ng_PayloadType = pt, ng_Answer = []\<rparr>
      in if ng_RemoteSetup n = ''actpass'' \<or> ng_RemoteSetup n = ''active'' then
           (let n' = n\<lparr>ng_LocalSetup := ''passive'', ng_IsClient := False\<rparr>
            in Inr (n'\<lparr>ng_Answer := buildAnswer now n'\<rparr>))
         else if ng_RemoteSetup n = ''passive'' then
           (let n' = n\<lparr>ng_LocalSetup := ''active'', ng_IsClient := True\<rparr>
            in Inr (n'\<lparr>ng_Answer := buildAnswer now n'\<rparr>))
         else Inl (sdp_error ''unsupported setup role'')))))))))))"

section \<open>Applying an answer\<close>

text \<open>The error, if any, and the negotiation as \<open>ApplyAnswer\<close> leaves it. (The guard against a
  nil negotiation has no counterpart: the record always exists.)\<close>

definition ApplyAnswer :: "sdp_parser \<Rightarrow> candidate_parser \<Rightarrow> string \<Rightarrow> Negotiation \<Rightarrow> go_error option \<times> Negotiation" where
  "ApplyAnswer unmarshal uc raw n =
     (if ng_Certificate n = None \<or> ng_LocalUfrag n = [] \<or> ng_LocalPwd n = []
      then (Some (sdp_error ''outbound offer state missing''), n)
      else
     (case compatibleAudio unmarshal raw of
        Inl e \<Rightarrow> (Some e, n)
      | Inr (m, session) \<Rightarrow>
     (case attr_or_session m session ''fingerprint'' of
        None \<Rightarrow> (Some (sdp_error ''fingerprint missing''), n)
      | Some fp \<Rightarrow>
     (case check_fingerprint fp of
        Inl e \<Rightarrow> (Some e, n)
      | Inr digest \<Rightarrow>
     (case attr_or_session m session ''setup'' of
        None \<Rightarrow> (Some (sdp_error ''setup missing''), n)
      | Some setup \<Rightarrow>
      if attr m ''rtcp-mux'' = None then (Some (sdp_error ''rtcp-mux required''), n)
      else
     (case (attr_or_session m session ''ice-ufrag'', attr_or_session m session ''ice-pwd'') of
        (Some ufrag, Some pwd) \<Rightarrow>
          (if ufrag = [] \<or> pwd = [] then (Some (sdp_error ''ICE credentials missing''), n)
           else
          (case opusPayload m of
             Inl e \<Rightarrow> (Some e, n)
           | Inr pt \<Rightarrow>
          (case remoteCandidates uc m of
             Inl e \<Rightarrow> (Some (sdp_error (err_text e)), n)
           | Inr cands \<Rightarrow>
           let n1 = n\<lparr>ng_RemoteFingerprint := to_upper digest, ng_RemoteSetup := to_lower setup,
                     ng_RemoteUfrag := ufrag, ng_RemotePwd := pwd, ng_RemoteCandidates := cands,
                     ng_PayloadType := pt\<rparr>
           in if ng_RemoteSetup n1 = ''active''
              then (None, n1\<lparr>ng_LocalSetup := ''passive'', ng_IsClient := False\<rparr>)
              else if ng_RemoteSetup n1 = ''passive''
              then (None, n1\<lparr>ng_LocalSetup := ''active'', ng_IsClient := True\<rparr>)
              else (Some (sdp_error ''answer setup must be active or passive''), n1))))
      | _ \<Rightarrow> (Some (sdp_error ''ICE credentials missing''), n)))))))"

section \<open>Lemmas on the parts\<close>

lemma byte_upper: "97 \<le> byte c \<Longrightarrow> byte c \<le> 122 \<Longrightarrow> byte (ascii_upper c) = byte c - 32"
  by (simp add: ascii_upper_def)

lemma hex_val_upper: "hex_val (ascii_upper c) = hex_val c"
proof (cases "97 \<le> byte c \<and> byte c \<le> 122")
  case True
  then have "byte (ascii_upper c) = byte c - 32" by (simp add: byte_upper)
  with True show ?thesis by (auto simp: hex_val_def Let_def)
qed (auto simp: ascii_upper_def)

lemma ascii_upper_colon: "ascii_upper c = CHR '':'' \<longleftrightarrow> c = CHR '':''"
proof (cases "97 \<le> byte c \<and> byte c \<le> 122")
  case True
  then have "byte (ascii_upper c) = byte c - 32" by (simp add: byte_upper)
  with True have "byte (ascii_upper c) \<noteq> byte CHR '':''" "byte c \<noteq> byte CHR '':''" by auto
  then show ?thesis by auto
qed (auto simp: ascii_upper_def)

lemma hex_decode_upper: "hex_decode (map ascii_upper s) = hex_decode s"
  by (induction s rule: hex_decode.induct) (auto simp: hex_val_upper split: option.splits)

lemma replace_colons_upper:
  "replace_all CHR '':'' [] (to_upper s) = map ascii_upper (replace_all CHR '':'' [] s)"
  by (induction s) (simp_all add: replace_all_filter to_upper_def ascii_upper_colon)

lemma check_fingerprint_Inr:
  "check_fingerprint fp = Inr d \<Longrightarrow>
   \<exists>bs. hex_decode (replace_all CHR '':'' [] (to_upper d)) = Some bs \<and> length bs = 32"
  by (auto simp: check_fingerprint_def replace_colons_upper hex_decode_upper
      split: list.splits if_splits option.splits)

text \<open>An rtpmap attribute selects a payload type, or leaves it to the ones after it.\<close>

lemma opus_in_step:
  assumes "opus_in m ((k, v) # as) = Inr pt" "opus_in m as \<noteq> Inr pt"
  obtains fmt i where "atoi fmt = Some i" "0 \<le> i" "i \<le> 127" "offeredFormat m fmt" "pt = word_of_int i"
  using assms by (auto split: if_splits list.splits option.splits)

lemma opus_in_Inr:
  "opus_in m as = Inr pt \<Longrightarrow> uint pt \<le> 127 \<and> (\<exists>f. f \<in> set (md_Formats m) \<and> atoi f = Some (uint pt))"
proof (induction as)
  case (Cons a as)
  obtain k v where a: "a = (k, v)" by (cases a)
  show ?case
  proof (cases "opus_in m as = Inr pt")
    case True
    then show ?thesis by (rule Cons.IH)
  next
    case False
    with Cons.prems a obtain fmt i where i: "atoi fmt = Some i" "0 \<le> i" "i \<le> 127" "offeredFormat m fmt"
        "pt = word_of_int i"
      using opus_in_step [of m k v as pt] by blast
    then have "uint pt = i" by (simp add: uint_word_of_int)
    with i show ?thesis by (auto simp: offeredFormat_def)
  qed
qed simp

lemma opusPayload_Inr:
  "opusPayload m = Inr pt \<Longrightarrow> uint pt \<le> 127 \<and> (\<exists>f. f \<in> set (md_Formats m) \<and> atoi f = Some (uint pt))"
  by (simp add: opusPayload_def opus_in_Inr)

lemma credential_Inr:
  assumes "credential rand n = Inr s" "\<forall>b. rand n = Inr b \<longrightarrow> length b = n"
  shows "length s = 2 * n"
  using assms by (auto simp: credential_def hex_encode_length split: sum.splits)

text \<open>The usable candidates of a media section, before duplicates are removed.\<close>

definition usable :: "candidate_parser \<Rightarrow> attributes \<Rightarrow> ICECandidate list" where
  "usable uc as = List.map_filter (\<lambda>(k, v). if k = ''candidate'' then usable_candidate uc v else None) as"

text \<open>The first occurrence of each raw candidate.\<close>

fun first_raw :: "string set \<Rightarrow> ICECandidate list \<Rightarrow> ICECandidate list" where
  "first_raw seen [] = []"
| "first_raw seen (c # cs) =
     (if ic_Raw c \<in> seen then first_raw seen cs else c # first_raw (insert (ic_Raw c) seen) cs)"

lemma candidates_in_first: "candidates_in uc seen as = first_raw seen (usable uc as)"
  by (induction uc seen as rule: candidates_in.induct)
     (auto simp: usable_def List.map_filter_simps split: option.splits)

lemma first_raw_set: "set (first_raw seen cs) \<subseteq> set cs"
  by (induction seen cs rule: first_raw.induct) auto

lemma first_raw_raws:
  "ic_Raw ` set (first_raw seen cs) = ic_Raw ` set cs - seen"
  by (induction seen cs rule: first_raw.induct) auto

lemma first_raw_distinct: "distinct (map ic_Raw (first_raw seen cs))"
  by (induction seen cs rule: first_raw.induct) (auto simp: first_raw_raws)

lemma first_raw_empty: "first_raw {} cs = [] \<longleftrightarrow> cs = []"
  by (cases cs) auto

lemma usable_candidate_port:
  assumes "usable_candidate uc v = Some c"
  shows "snd (ic_Address c) \<noteq> 0"
proof -
  from assms obtain p where "1 \<le> p" "p \<le> 65535" "snd (ic_Address c) = word_of_int p"
    by (auto simp: usable_candidate_def not_less split: option.splits if_splits)
  then have "uint (snd (ic_Address c)) = p" by (simp add: uint_word_of_int)
  with \<open>1 \<le> p\<close> show ?thesis by auto
qed

lemma usable_port: "c \<in> set (usable uc as) \<Longrightarrow> snd (ic_Address c) \<noteq> 0"
  by (auto simp: usable_def List.map_filter_def split: if_splits dest: usable_candidate_port)

lemma remoteCandidates_Inr:
  assumes "remoteCandidates uc m = Inr cs"
  shows "cs \<noteq> [] \<and> distinct (map ic_Raw cs) \<and> (\<forall>c \<in> set cs. snd (ic_Address c) \<noteq> 0)"
proof -
  from assms have cs: "cs = first_raw {} (usable uc (md_Attributes m))" "cs \<noteq> []"
    by (auto simp: remoteCandidates_def candidates_in_first Let_def split: if_splits)
  moreover have "\<forall>c \<in> set cs. snd (ic_Address c) \<noteq> 0"
    using cs first_raw_set usable_port by blast
  ultimately show ?thesis by (simp add: first_raw_distinct)
qed

section \<open>What a completed negotiation guarantees\<close>

text \<open>The transport parameters a \<open>Transport\<close> is started with.\<close>

definition remote_ok :: "Negotiation \<Rightarrow> bool" where
  "remote_ok n \<longleftrightarrow>
     (case hex_decode (replace_all CHR '':'' [] (ng_RemoteFingerprint n)) of
        Some bs \<Rightarrow> length bs = 32 | None \<Rightarrow> False) \<and>
     ng_RemoteUfrag n \<noteq> [] \<and> ng_RemotePwd n \<noteq> [] \<and>
     ng_RemoteCandidates n \<noteq> [] \<and> distinct (map ic_Raw (ng_RemoteCandidates n)) \<and>
     list_all (\<lambda>c. snd (ic_Address c) \<noteq> 0) (ng_RemoteCandidates n) \<and>
     ng_PayloadType n \<le> 127"

text \<open>Exactly one side is the DTLS client.\<close>

definition roles_ok :: "Negotiation \<Rightarrow> bool" where
  "roles_ok n \<longleftrightarrow>
     (if ng_IsClient n then ng_LocalSetup n = ''active'' \<and> ng_RemoteSetup n = ''passive''
      else ng_LocalSetup n = ''passive'' \<and> ng_RemoteSetup n \<in> {''active'', ''actpass''})"

lemma remote_ok_I:
  assumes "check_fingerprint fp = Inr d" "ng_RemoteFingerprint n = to_upper d"
    and "ng_RemoteUfrag n \<noteq> []" "ng_RemotePwd n \<noteq> []"
    and "remoteCandidates uc m = Inr (ng_RemoteCandidates n)" "opusPayload m = Inr (ng_PayloadType n)"
  shows "remote_ok n"
proof -
  have "ng_PayloadType n \<le> 127"
    using opusPayload_Inr [OF assms(6)] by (simp add: word_le_def)
  then show ?thesis
    using check_fingerprint_Inr [OF assms(1)] remoteCandidates_Inr [OF assms(5)] assms(2-4)
    by (auto simp: remote_ok_def list_all_iff)
qed

lemma buildAnswer_answer:
  "buildAnswer now \<lparr>ng_RemoteFingerprint = rf, ng_RemoteSetup = rs, ng_LocalSetup = ls, ng_IsClient = c,
     ng_Certificate = ct, ng_RemoteUfrag = ru, ng_RemotePwd = rp, ng_LocalUfrag = lu, ng_LocalPwd = lp,
     ng_RemoteCandidates = rc, ng_Local = l, ng_PayloadType = pt, ng_Answer = x\<rparr> =
   buildAnswer now \<lparr>ng_RemoteFingerprint = rf, ng_RemoteSetup = rs, ng_LocalSetup = ls, ng_IsClient = c,
     ng_Certificate = ct, ng_RemoteUfrag = ru, ng_RemotePwd = rp, ng_LocalUfrag = lu, ng_LocalPwd = lp,
     ng_RemoteCandidates = rc, ng_Local = l, ng_PayloadType = pt, ng_Answer = y\<rparr>"
  by (simp add: buildAnswer_def build_description_def cert_fingerprint_def)

lemma ParseOfferAndAnswer_answer:
  assumes "ParseOfferAndAnswer unmarshal uc rand now raw cert publicIP port = Inr n"
  shows "ng_Answer n = buildAnswer now n"
  using assms
  by (auto simp: ParseOfferAndAnswer_def Let_def intro: buildAnswer_answer
      split: sum.splits option.splits if_splits prod.splits)

lemma ParseOfferAndAnswer_Inr:
  assumes "ParseOfferAndAnswer unmarshal uc rand now raw cert publicIP port = Inr n"
  shows "remote_ok n \<and> roles_ok n \<and> ng_Certificate n = Some cert \<and> ng_Local n = (publicIP, word_of_int port) \<and>
    credential rand 8 = Inr (ng_LocalUfrag n) \<and> credential rand 24 = Inr (ng_LocalPwd n)"
  using assms
  by (auto simp: ParseOfferAndAnswer_def roles_ok_def Let_def intro: remote_ok_I
      split: sum.splits option.splits if_splits prod.splits)

lemma ApplyAnswer_None:
  assumes "ApplyAnswer unmarshal uc raw n = (None, n')"
  shows "remote_ok n' \<and> roles_ok n'"
  using assms
  by (auto simp: ApplyAnswer_def roles_ok_def Let_def intro: remote_ok_I
      split: sum.splits option.splits if_splits prod.splits)

lemma sdp_error_is [simp]: "err_is (sdp_error msg) ErrInvalidSDP"
  by (simp add: sdp_error_def)

lemma opus_in_Inl: "opus_in m as = Inl e \<Longrightarrow> err_is e ErrInvalidSDP"
  by (induction as rule: opus_in.induct) (auto split: if_splits list.splits option.splits)

lemma compatibleAudio_Inl: "compatibleAudio unmarshal raw = Inl e \<Longrightarrow> err_is e ErrInvalidSDP"
  by (auto simp: compatibleAudio_def split: sum.splits option.splits)

lemma check_fingerprint_Inl: "check_fingerprint fp = Inl e \<Longrightarrow> err_is e ErrInvalidSDP"
  by (auto simp: check_fingerprint_def split: list.splits if_splits option.splits)

lemmas sdp_Inl = opus_in_Inl compatibleAudio_Inl check_fingerprint_Inl

lemma ParseOfferAndAnswer_Inl:
  assumes "ParseOfferAndAnswer unmarshal uc rand now raw cert publicIP port = Inl e"
  shows "err_is e ErrInvalidSDP \<or> rand 8 = Inl e \<or> rand 24 = Inl e"
  using assms
  by (auto simp: ParseOfferAndAnswer_def opusPayload_def credential_def Let_def dest: sdp_Inl
      split: sum.splits option.splits if_splits prod.splits)

lemma ApplyAnswer_Some:
  assumes "ApplyAnswer unmarshal uc raw n = (Some e, n')"
  shows "err_is e ErrInvalidSDP"
  using assms
  by (auto simp: ApplyAnswer_def opusPayload_def Let_def dest: sdp_Inl
      split: sum.splits option.splits if_splits prod.splits)

section \<open>Reading a built description\<close>

text \<open>
  What a description says: the attributes of its session and of its audio section, and the
  value of its candidate line. The theory \<open>SdpText\<close> shows that the text of
  \<open>build_description\<close>, read by the grammar of SDP, says exactly this.
\<close>

definition candidate_value :: "Negotiation \<Rightarrow> string" where
  "candidate_value n = ''1 1 udp 2130706431 '' @ addr_String (fst (ng_Local n)) @ '' '' @
     show_nat (unat (snd (ng_Local n))) @ '' typ host''"

definition described :: "string \<Rightarrow> string \<Rightarrow> Negotiation \<Rightarrow> session_desc" where
  "described pt setup n =
     \<lparr>sd_Attributes = [(''group'', ''BUNDLE 0''), (''msid-semantic'', '' WMS'')],
      sd_Media = [\<lparr>md_Media = ''audio'', md_Protos = [''UDP'', ''TLS'', ''RTP'', ''SAVPF''], md_Formats = [pt],
        md_Attributes = [(''mid'', ''0''), (''sendrecv'', []), (''rtcp-mux'', []),
          (''rtpmap'', pt @ '' '' @ ''opus/48000/2''), (''fmtp'', pt @ '' minptime=10;useinbandfec=1''),
          (''ice-ufrag'', ng_LocalUfrag n), (''ice-pwd'', ng_LocalPwd n), (''candidate'', candidate_value n),
          (''end-of-candidates'', []), (''fingerprint'', ''sha-256'' @ '' '' @ cert_fingerprint n),
          (''setup'', setup)]\<rparr>]\<rparr>"

definition reads_candidate :: "candidate_parser \<Rightarrow> Negotiation \<Rightarrow> bool" where
  "reads_candidate uc n \<longleftrightarrow>
     (case uc (candidate_value n) of
        Some c \<Rightarrow> pc_Component c = 1 \<and> pc_UDP4 c \<and> pc_Address c = addr_String (fst (ng_Local n)) \<and>
          pc_Port c = uint (snd (ng_Local n))
      | None \<Rightarrow> False)"

definition cert_ok :: "Certificate \<Rightarrow> bool" where
  "cert_ok c \<longleftrightarrow> (\<exists>bs. length bs = 32 \<and> list_all (\<lambda>b. b < 256) bs \<and> ct_Fingerprint c = colon_hex bs)"

lemma NewCertificate_ok:
  assumes "NewCertificate create sha256 = Inr c"
    and "\<And>raw. length (sha256 raw) = 32 \<and> list_all (\<lambda>b. b < 256) (sha256 raw)"
  shows "cert_ok c"
proof -
  from assms(1) obtain raw where "ct_Fingerprint c = colon_hex (sha256 raw)"
    by (auto simp: NewCertificate_def fingerprint_of_def split: sum.splits)
  with assms(2) show ?thesis unfolding cert_ok_def by blast
qed

lemma hex_digit_upper_props:
  assumes "d < 16"
  shows "ascii_upper (hex_digit True d) = hex_digit True d" "no_space [hex_digit True d]"
proof -
  have "byte (hex_digit True d) = (if d < 10 then 48 + d else 55 + d)"
    using assms by (simp add: hex_digit_def)
  with assms show "ascii_upper (hex_digit True d) = hex_digit True d" "no_space [hex_digit True d]"
    by (auto simp: ascii_upper_def no_space_def is_space_def)
qed

lemma no_space_append [simp]: "no_space (a @ b) \<longleftrightarrow> no_space a \<and> no_space b"
  by (auto simp: no_space_def)

lemma no_space_Nil [simp]: "no_space []"
  by (simp add: no_space_def)

lemma hex_digit_no_space: "d < 16 \<Longrightarrow> no_space [hex_digit u d]"
proof -
  assume d: "d < 16"
  then have "byte (hex_digit u d) = (if d < 10 then 48 + d else if u then 55 + d else 87 + d)"
    by (simp add: hex_digit_def)
  with d show ?thesis by (auto simp: no_space_def is_space_def)
qed

lemma hex_byte_no_space: "b < 256 \<Longrightarrow> no_space (hex_byte u b)"
proof -
  assume "b < 256"
  then have "b div 16 < 16" "b mod 16 < 16" by auto
  then show ?thesis
    using no_space_append [of "[hex_digit u (b div 16)]" "[hex_digit u (b mod 16)]"]
    by (simp add: hex_byte_def hex_digit_no_space)
qed

lemma hex_encode_no_space: "list_all (\<lambda>b. b < 256) bs \<Longrightarrow> no_space (hex_encode bs)"
  by (induction bs) (auto simp: hex_encode_def hex_byte_no_space)

lemma hex_byte_upper_props:
  assumes "b < 256"
  shows "map ascii_upper (hex_byte True b) = hex_byte True b" "no_space (hex_byte True b)"
proof -
  have "b div 16 < 16" "b mod 16 < 16" using assms by auto
  then show "map ascii_upper (hex_byte True b) = hex_byte True b" "no_space (hex_byte True b)"
    using no_space_append [of "[hex_digit True (b div 16)]" "[hex_digit True (b mod 16)]"]
    by (auto simp: hex_byte_def hex_digit_upper_props)
qed

lemma colon_hex_Cons:
  "colon_hex (b # bs) = hex_byte True b @ (if bs = [] then [] else '':'' @ colon_hex bs)"
  by (cases bs) (simp_all add: colon_hex_def)

lemma colon_no_space: "no_space '':''"
  by (simp add: no_space_def is_space_def)

lemma colon_hex_upper_props:
  "list_all (\<lambda>b. b < 256) bs \<Longrightarrow> to_upper (colon_hex bs) = colon_hex bs \<and> no_space (colon_hex bs)"
proof (induction bs)
  case (Cons b bs)
  then show ?case
    using no_space_append [of "'':''" "colon_hex bs"] colon_no_space
    by (auto simp: colon_hex_Cons to_upper_def hex_byte_upper_props ascii_upper_colon)
qed (simp add: colon_hex_def to_upper_def no_space_def)

lemma check_fingerprint_built:
  assumes "cert_ok c"
  shows "check_fingerprint (''sha-256'' @ '' '' @ ct_Fingerprint c) = Inr (ct_Fingerprint c)"
    and "to_upper (ct_Fingerprint c) = ct_Fingerprint c"
proof -
  from assms obtain bs where bs: "length bs = 32" "list_all (\<lambda>b. b < 256) bs" "ct_Fingerprint c = colon_hex bs"
    by (auto simp: cert_ok_def)
  then have "bs \<noteq> []" by auto
  then have "colon_hex bs \<noteq> []" by (cases bs) (auto simp: colon_hex_Cons hex_byte_def)
  with bs have "str_fields (''sha-256'' @ '' '' @ colon_hex bs) = [''sha-256'', colon_hex bs]"
    by (intro str_fields_two) (auto simp: colon_hex_upper_props, simp_all add: no_space_def is_space_def)
  with bs show "check_fingerprint (''sha-256'' @ '' '' @ ct_Fingerprint c) = Inr (ct_Fingerprint c)"
    by (simp only: check_fingerprint_def) (simp add: hex_decode_colon_hex)
  show "to_upper (ct_Fingerprint c) = ct_Fingerprint c"
    using bs by (simp add: colon_hex_upper_props)
qed

lemma fields_rtpmap:
  assumes "list_all is_digit pt" "pt \<noteq> []"
  shows "str_fields (pt @ '' '' @ ''opus/48000/2'') = [pt, ''opus/48000/2'']"
  using assms by (intro str_fields_two) (auto simp: no_space_digits, simp_all add: no_space_def is_space_def)

definition audio_of :: "session_desc \<Rightarrow> media_desc" where
  "audio_of s = hd (sd_Media s)"

lemma opus_described:
  assumes "k \<le> 127"
  shows "opusPayload (audio_of (described (show_nat k) setup n)) = Inr (word_of_int (int k))"
proof -
  have "atoi (show_nat k) = Some (int k)"
    using atoi_itoa [of "int k"] assms by (simp add: itoa_def min_int64_def max_int64_def)
  with assms show ?thesis
    using fields_rtpmap [of "show_nat k"]
    by (simp add: opusPayload_def audio_of_def described_def show_nat_digits show_nat_nonempty offeredFormat_def)
qed

lemma compatible_described:
  assumes "unmarshal raw = Inr (described pt setup n)"
  shows "compatibleAudio unmarshal raw = Inr (audio_of (described pt setup n), described pt setup n)"
  using assms by (simp add: compatibleAudio_def described_def audio_of_def compatible_def)

lemma attrs_described:
  "attr_or_session (audio_of (described pt setup n)) s ''fingerprint'' = Some (''sha-256'' @ '' '' @ cert_fingerprint n)"
  "attr_or_session (audio_of (described pt setup n)) s ''setup'' = Some setup"
  "attr (audio_of (described pt setup n)) ''rtcp-mux'' = Some []"
  "attr_or_session (audio_of (described pt setup n)) s ''ice-ufrag'' = Some (ng_LocalUfrag n)"
  "attr_or_session (audio_of (described pt setup n)) s ''ice-pwd'' = Some (ng_LocalPwd n)"
  by (simp_all add: attr_or_session_def attr_def audio_of_def described_def)

lemma candidates_described:
  assumes "reads_candidate uc n" "ng_Local n = (Addr4 ip, p)" "p \<noteq> 0"
  shows "\<exists>c. remoteCandidates uc (audio_of (described pt setup n)) = Inr [c] \<and> ic_Address c = (ip, p)"
proof -
  from assms(1,2) obtain c where c: "uc (candidate_value n) = Some c" "pc_Component c = 1" "pc_UDP4 c"
      "pc_Address c = show_ipv4 ip" "pc_Port c = uint p"
    by (auto simp: reads_candidate_def split: option.splits)
  have "1 \<le> uint p" "uint p \<le> 65535"
    using assms(3) uint_u16 [of p] by (auto simp: word_gt_0 less_le uint_0_iff int_one_le_iff_zero_less)
  with c show ?thesis
    by (simp add: remoteCandidates_def audio_of_def described_def usable_candidate_def parse_addr4_show Let_def)
qed

section \<open>Two endpoints agree\<close>

text \<open>The remote half of \<open>a\<close> is the local half of \<open>b\<close>.\<close>

definition mirrors :: "Negotiation \<Rightarrow> Negotiation \<Rightarrow> bool" where
  "mirrors a b \<longleftrightarrow>
     ng_RemoteUfrag a = ng_LocalUfrag b \<and> ng_RemotePwd a = ng_LocalPwd b \<and>
     ng_RemoteFingerprint a = cert_fingerprint b \<and>
     map (\<lambda>c. (Addr4 (fst (ic_Address c)), snd (ic_Address c))) (ng_RemoteCandidates a) = [ng_Local b] \<and>
     ng_PayloadType a = ng_PayloadType b"

lemma word_port: "1 \<le> p \<Longrightarrow> p \<le> 65535 \<Longrightarrow> (word_of_int p :: u16) \<noteq> 0"
proof -
  assume "1 \<le> p" "p \<le> 65535"
  then have "uint (word_of_int p :: u16) = p" by (simp add: uint_word_of_int)
  with \<open>1 \<le> p\<close> have "uint (word_of_int p :: u16) \<noteq> uint (0 :: u16)" by simp
  then show ?thesis by metis
qed

lemma NewOffer_Inr:
  assumes "NewOffer rand now cert publicIP port = Inr a"
  shows "\<exists>c ip lu lp. cert = Some c \<and> publicIP = Addr4 ip \<and> 1 \<le> port \<and> port \<le> 65535 \<and>
    credential rand 8 = Inr lu \<and> credential rand 24 = Inr lp \<and>
    ng_LocalUfrag a = lu \<and> ng_LocalPwd a = lp \<and> ng_Certificate a = cert \<and>
    ng_Local a = (publicIP, word_of_int port) \<and> ng_PayloadType a = 111"
  using assms by (cases publicIP) (auto simp: NewOffer_def Let_def split: if_splits sum.splits)

lemma credential_nonempty:
  assumes "credential rand n = Inr s" "\<And>n b. rand n = Inr b \<Longrightarrow> length b = n" "0 < n"
  shows "s \<noteq> []"
  using credential_Inr [OF assms(1)] assms(2,3) by auto

text \<open>An offer built by \<open>NewOffer\<close> is accepted, and the answering side ends up passive.\<close>

lemma offer_accepted:
  assumes "unmarshal raw = Inr (described ''111'' ''actpass'' a)" "reads_candidate uc a"
    and "ng_Certificate a = Some c" "cert_ok c" "ng_Local a = (Addr4 ip, p)" "p \<noteq> 0"
    and "ng_LocalUfrag a \<noteq> []" "ng_LocalPwd a \<noteq> []" "ng_PayloadType a = 111"
    and "credential rand 8 = Inr lu" "credential rand 24 = Inr lp"
  shows "\<exists>b. ParseOfferAndAnswer unmarshal uc rand now raw cert ipB port = Inr b \<and> mirrors b a \<and>
    ng_IsClient b = False \<and> ng_LocalSetup b = ''passive'' \<and> ng_PayloadType b = 111 \<and>
    ng_Certificate b = Some cert \<and> ng_Local b = (ipB, word_of_int port)"
proof -
  let ?m = "audio_of (described ''111'' ''actpass'' a)"
  obtain cand where cand: "remoteCandidates uc ?m = Inr [cand]" "ic_Address cand = (ip, p)"
    using candidates_described [OF assms(2,5,6)] by blast
  have "show_nat 111 = ''111''" by code_simp
  then have pt: "opusPayload ?m = Inr 111" using opus_described [of 111 "''actpass''" a] by simp
  have "cert_fingerprint a = ct_Fingerprint c" using assms(3) by (simp add: cert_fingerprint_def)
  then have fp: "check_fingerprint (''sha-256'' @ '' '' @ cert_fingerprint a) = Inr (cert_fingerprint a)"
      "to_upper (cert_fingerprint a) = cert_fingerprint a"
    using check_fingerprint_built [OF assms(4)] by simp_all
  have low: "to_lower ''actpass'' = ''actpass''" by code_simp
  show ?thesis
    unfolding ParseOfferAndAnswer_def compatible_described [where unmarshal = unmarshal, OF assms(1)] sum.case prod.case attrs_described
      option.case fp(1) pt cand(1) assms(10,11) Let_def
    using assms(5,7,8,9) cand(2) fp(2) low by (simp add: mirrors_def)
qed

text \<open>The answer built by the accepting side completes the offer, with the opposite role.\<close>

lemma answer_accepted:
  assumes "unmarshal raw = Inr (described (show_nat k) ''passive'' b)" "reads_candidate uc b"
    and "ng_Certificate b = Some c" "cert_ok c" "ng_Local b = (Addr4 ip, p)" "p \<noteq> 0"
    and "ng_LocalUfrag b \<noteq> []" "ng_LocalPwd b \<noteq> []"
    and "k \<le> 127" "ng_PayloadType b = word_of_int (int k)"
    and "ng_Certificate a \<noteq> None" "ng_LocalUfrag a \<noteq> []" "ng_LocalPwd a \<noteq> []"
  shows "\<exists>a'. ApplyAnswer unmarshal uc raw a = (None, a') \<and> mirrors a' b \<and> ng_IsClient a' \<and> ng_LocalSetup a' = ''active'' \<and>
    ng_LocalUfrag a' = ng_LocalUfrag a \<and> ng_LocalPwd a' = ng_LocalPwd a \<and> ng_Certificate a' = ng_Certificate a \<and>
    ng_Local a' = ng_Local a \<and> ng_PayloadType a' = ng_PayloadType b"
proof -
  let ?m = "audio_of (described (show_nat k) ''passive'' b)"
  obtain cand where cand: "remoteCandidates uc ?m = Inr [cand]" "ic_Address cand = (ip, p)"
    using candidates_described [OF assms(2,5,6)] by blast
  have "cert_fingerprint b = ct_Fingerprint c" using assms(3) by (simp add: cert_fingerprint_def)
  then have fp: "check_fingerprint (''sha-256'' @ '' '' @ cert_fingerprint b) = Inr (cert_fingerprint b)"
      "to_upper (cert_fingerprint b) = cert_fingerprint b"
    using check_fingerprint_built [OF assms(4)] by simp_all
  have low: "to_lower ''passive'' = ''passive''" by code_simp
  show ?thesis
    unfolding ApplyAnswer_def compatible_described [where unmarshal = unmarshal, OF assms(1)] sum.case prod.case attrs_described
      option.case fp(1) opus_described [OF assms(9)] cand(1) Let_def
    using assms(5,7,8,10-13) cand(2) fp(2) low by (simp add: mirrors_def)
qed

section \<open>Answers and the local half\<close>

text \<open>Two negotiations with the same local half.\<close>

definition same_local :: "Negotiation \<Rightarrow> Negotiation \<Rightarrow> bool" where
  "same_local a b \<longleftrightarrow> ng_Certificate a = ng_Certificate b \<and> ng_LocalUfrag a = ng_LocalUfrag b \<and>
     ng_LocalPwd a = ng_LocalPwd b \<and> ng_Local a = ng_Local b \<and> ng_Answer a = ng_Answer b"

lemma ApplyAnswer_same_local: "same_local (snd (ApplyAnswer unmarshal uc raw n)) n"
  by (auto simp: ApplyAnswer_def same_local_def Let_def split: sum.splits option.splits prod.splits)

lemma ApplyAnswer_cong:
  assumes "same_local a b"
  shows "fst (ApplyAnswer unmarshal uc raw a) = fst (ApplyAnswer unmarshal uc raw b) \<and>
    (fst (ApplyAnswer unmarshal uc raw b) = None \<longrightarrow>
     snd (ApplyAnswer unmarshal uc raw a) = snd (ApplyAnswer unmarshal uc raw b))"
  using assms
  by (auto simp: ApplyAnswer_def same_local_def Let_def split: sum.splits option.splits prod.splits)

section \<open>A concrete exchange\<close>

text \<open>Certificates, random source, parsers and addresses for the witnesses below.\<close>

definition demo_cert :: Certificate where
  "demo_cert = \<lparr>ct_raw = [], ct_Fingerprint = colon_hex (replicate 32 170)\<rparr>"

definition demo_rand :: "nat \<Rightarrow> nat list result" where
  "demo_rand n = Inr (replicate n 1)"

definition demo_candidate :: candidate_parser where
  "demo_candidate v =
     Some \<lparr>pc_Component = 1, pc_UDP4 = True, pc_Address = ''10.0.0.1'', pc_Port = 9, pc_Marshal = v,
           pc_Foundation = ''1'', pc_Priority = 2130706431, pc_Type = 1\<rparr>"

definition demo_local :: "string \<Rightarrow> bool \<Rightarrow> Negotiation" where
  "demo_local su ans =
     (let n = \<lparr>ng_RemoteFingerprint = [], ng_RemoteSetup = [], ng_LocalSetup = su, ng_IsClient = False,
         ng_Certificate = Some demo_cert, ng_RemoteUfrag = [], ng_RemotePwd = [],
         ng_LocalUfrag = hex_encode (replicate 8 1), ng_LocalPwd = hex_encode (replicate 24 1),
         ng_RemoteCandidates = [], ng_Local = (Addr4 (10, 0, 0, 1), 9), ng_PayloadType = 111, ng_Answer = []\<rparr>
      in n\<lparr>ng_Answer := (if ans then buildAnswer 0 n else buildOffer 0 n)\<rparr>)"

lemma demo_cert_ok: "cert_ok demo_cert"
  unfolding cert_ok_def by (rule exI [of _ "replicate 32 170"]) (simp add: demo_cert_def list_all_iff)

lemma demo_offer:
  "NewOffer demo_rand 0 (Some demo_cert) (Addr4 (10, 0, 0, 1)) 9 = Inr (demo_local ''actpass'' False)"
  by code_simp

lemma demo_reads: "reads_candidate demo_candidate (demo_local su ans)"
proof -
  have "addr_String (Addr4 (10, 0, 0, 1)) = ''10.0.0.1''" by code_simp
  then show ?thesis by (simp add: reads_candidate_def demo_candidate_def demo_local_def Let_def)
qed

lemma demo_local_sel:
  "ng_Certificate (demo_local su ans) = Some demo_cert" "ng_LocalUfrag (demo_local su ans) = hex_encode (replicate 8 1)"
  "ng_LocalPwd (demo_local su ans) = hex_encode (replicate 24 1)" "ng_Local (demo_local su ans) = (Addr4 (10, 0, 0, 1), 9)"
  "ng_PayloadType (demo_local su ans) = 111" "ng_LocalSetup (demo_local su ans) = su"
  by (simp_all add: demo_local_def Let_def)

lemma demo_credential: "credential demo_rand n = Inr (hex_encode (replicate n 1))"
  by (simp add: credential_def demo_rand_def)

lemma hex_encode_empty: "hex_encode bs = [] \<longleftrightarrow> bs = []"
  by (metis hex_encode_length length_0_conv mult_is_0 zero_neq_numeral)

section \<open>Properties\<close>

text \<open>
  C23: Whatever SDP offer Meta sends, \<open>ParseOfferAndAnswer\<close> either fails or returns a complete
  negotiation: the remote fingerprint is a 32-byte SHA-256 digest, the ICE credentials are
  not empty, there is at least one candidate, candidates are distinct with usable ports, the
  payload type is at most 127, exactly one side is the DTLS client, and the answer text
  describes exactly the returned parameters. Every failure is an \<open>ErrInvalidSDP\<close>, unless the
  random source itself failed.
\<close>

theorem offer_negotiation_complete:
  "case ParseOfferAndAnswer unmarshal uc rand now raw cert publicIP port of
     Inr n \<Rightarrow> remote_ok n \<and> roles_ok n \<and> ng_Certificate n = Some cert \<and>
       ng_Local n = (publicIP, word_of_int port) \<and>
       credential rand 8 = Inr (ng_LocalUfrag n) \<and> credential rand 24 = Inr (ng_LocalPwd n) \<and>
       ng_Answer n = buildAnswer now n
   | Inl e \<Rightarrow> err_is e ErrInvalidSDP \<or> rand 8 = Inl e \<or> rand 24 = Inl e"
  using ParseOfferAndAnswer_Inr ParseOfferAndAnswer_answer ParseOfferAndAnswer_Inl
  by (auto split: sum.splits)

text \<open>
  C38: \<open>ApplyAnswer\<close> never replaces what the offer advertised (certificate, ICE credentials,
  local address, offer text), in success or failure; success leaves a complete negotiation;
  and an earlier answer, accepted or rejected half-way, has no influence on what a later
  answer does.
\<close>

theorem ApplyAnswer_retry:
  "let n1 = snd (ApplyAnswer unmarshal uc raw1 n)
   in ng_Certificate n1 = ng_Certificate n \<and> ng_LocalUfrag n1 = ng_LocalUfrag n \<and>
    ng_LocalPwd n1 = ng_LocalPwd n \<and> ng_Local n1 = ng_Local n \<and> ng_Answer n1 = ng_Answer n \<and>
    (case ApplyAnswer unmarshal uc raw2 n of
       (None, n') \<Rightarrow> remote_ok n' \<and> roles_ok n' \<and> ApplyAnswer unmarshal uc raw2 n1 = (None, n')
     | (Some e, n') \<Rightarrow> err_is e ErrInvalidSDP \<and> fst (ApplyAnswer unmarshal uc raw2 n1) = Some e)"
proof -
  define n1 where "n1 = snd (ApplyAnswer unmarshal uc raw1 n)"
  have same: "same_local n1 n" unfolding n1_def by (rule ApplyAnswer_same_local)
  obtain r n' where r: "ApplyAnswer unmarshal uc raw2 n = (r, n')" by fastforce
  have "fst (ApplyAnswer unmarshal uc raw2 n1) = r" "r = None \<Longrightarrow> ApplyAnswer unmarshal uc raw2 n1 = (None, n')"
    using ApplyAnswer_cong [OF same, of unmarshal uc raw2] r by (auto simp: prod_eq_iff)
  with same r ApplyAnswer_None [of unmarshal uc raw2 n n'] ApplyAnswer_Some [of unmarshal uc raw2 n]
  show ?thesis
    unfolding n1_def [symmetric] Let_def same_local_def by (cases r) auto
qed

end
