(* ===== verification/Transport.thy ===== *)
theory Transport
  imports Prelude
begin

text \<open>
  \<open>internal/media/transport.go\<close>, the life of a \<open>Transport\<close>: \<open>run\<close> (ICE, the packet
  multiplexer, DTLS with the pinned peer certificate, SRTP) on one goroutine, \<open>Close\<close> on
  another. The state keeps which of the transport's fields are set, and as history which
  resources were created and which were closed, so that leaks are visible. \<open>tstep\<close>
  interleaves the two goroutines at the granularity of their critical sections; calls into
  pion and the operating system appear as results chosen by the environment.
\<close>

section \<open>State\<close>

datatype resource = IceMux | IceAgent | Mux | Dtls | Srtp | Srtcp | Raw

text \<open>\<open>tr_fields\<close>: the fields that are not nil. \<open>tr_ready\<close> counts how often \<open>ready\<close> was
  closed: a second close would panic.\<close>

record transport =
  tr_startOnce :: bool
  tr_ready :: nat
  tr_cancelled :: bool
  tr_closed :: bool
  tr_err :: "go_error option"
  tr_fields :: "resource set"
  tr_pumpOnce :: bool
  tr_made :: "resource set"
  tr_shut :: "resource set"

definition NewTransport :: transport where
  "NewTransport = \<lparr>tr_startOnce = False, tr_ready = 0, tr_cancelled = False, tr_closed = False, tr_err = None,
     tr_fields = {}, tr_pumpOnce = False, tr_made = {Raw}, tr_shut = {}\<rparr>"

section \<open>DTLS and SRTP setup\<close>

datatype dtls_profile = SRTP_AEAD_AES_128_GCM | SRTP_AES128_CM_HMAC_SHA1_80 | OtherProfile string
datatype srtp_profile = ProfileAeadAes128Gcm | ProfileAes128CmHmacSha1_80

primrec select_profile :: "dtls_profile \<Rightarrow> srtp_profile result" where
  "select_profile SRTP_AEAD_AES_128_GCM = Inr ProfileAeadAes128Gcm"
| "select_profile SRTP_AES128_CM_HMAC_SHA1_80 = Inr ProfileAes128CmHmacSha1_80"
| "select_profile (OtherProfile s) = Inl (ErrText (''unsupported SRTP profile '' @ s))"

text \<open>What the DTLS and SRTP libraries answer during one handshake; \<open>None\<close> is a nil error.\<close>

record handshake =
  hs_new :: "go_error option"
  hs_handshake :: "go_error option"
  hs_profile :: "dtls_profile option"
  hs_state :: bool
  hs_keys :: "srtp_profile \<Rightarrow> go_error option"
  hs_srtp :: "go_error option"
  hs_srtcp :: "go_error option"

text \<open>The middle of \<open>run\<close>: which of DTLS connection, SRTP and SRTCP session exist, and the
  error.\<close>

definition establish :: "handshake \<Rightarrow> resource set \<times> go_error option" where
  "establish h =
     (case hs_new h of Some e \<Rightarrow> ({}, Some e) | None \<Rightarrow>
     (case hs_handshake h of Some e \<Rightarrow> ({Dtls}, Some e) | None \<Rightarrow>
     (case hs_profile h of None \<Rightarrow> ({Dtls}, Some (ErrText ''DTLS did not negotiate SRTP'')) | Some profile \<Rightarrow>
     (case select_profile profile of Inl e \<Rightarrow> ({Dtls}, Some e) | Inr sp \<Rightarrow>
      if \<not> hs_state h then ({Dtls}, Some (ErrText ''DTLS state unavailable''))
      else
     (case hs_keys h sp of Some e \<Rightarrow> ({Dtls}, Some e) | None \<Rightarrow>
     (case hs_srtp h of Some e \<Rightarrow> ({Dtls}, Some e) | None \<Rightarrow>
     (case hs_srtcp h of Some e \<Rightarrow> ({Dtls, Srtp}, Some e) | None \<Rightarrow> ({Dtls, Srtp, Srtcp}, None))))))))"

section \<open>Critical sections\<close>

definition setResult :: "resource set \<Rightarrow> go_error option \<Rightarrow> transport \<Rightarrow> transport" where
  "setResult rs err t =
     (if tr_closed t then t\<lparr>tr_shut := tr_shut t \<union> rs\<rparr>
      else t\<lparr>tr_fields := (tr_fields t - {Dtls, Srtp, Srtcp}) \<union> (rs \<inter> {Dtls, Srtp, Srtcp}), tr_err := err\<rparr>)"

text \<open>\<open>connectICE\<close> and \<open>run\<close> publish what they created unless the transport was closed in
  the meantime; then they close it themselves. The flag says whether it was published.\<close>

definition publish :: "resource set \<Rightarrow> transport \<Rightarrow> bool \<times> transport" where
  "publish rs t =
     (if tr_closed t then (False, t\<lparr>tr_shut := tr_shut t \<union> rs\<rparr>) else (True, t\<lparr>tr_fields := tr_fields t \<union> rs\<rparr>))"

definition closeResources :: "transport \<Rightarrow> transport" where
  "closeResources t = t\<lparr>tr_shut := tr_shut t \<union> tr_fields t\<rparr>"

definition startPump :: "transport \<Rightarrow> transport" where
  "startPump t = t\<lparr>tr_pumpOnce := True\<rparr>"

definition create :: "resource set \<Rightarrow> transport \<Rightarrow> transport" where
  "create rs t = t\<lparr>tr_made := tr_made t \<union> rs\<rparr>"

text \<open>\<open>startOnce.Do(func() { close(t.ready) })\<close> in \<open>Close\<close>.\<close>

definition close_unstarted :: "transport \<Rightarrow> transport" where
  "close_unstarted t = (if tr_startOnce t then t else t\<lparr>tr_startOnce := True, tr_ready := tr_ready t + 1\<rparr>)"

text \<open>\<open>Wait\<close> (which starts \<open>run\<close> first): \<open>ready_first\<close> is the choice of \<open>select\<close> when both
  channels are ready; \<open>None\<close> while it blocks.\<close>

definition t_Wait :: "bool \<Rightarrow> transport \<Rightarrow> go_error option option" where
  "t_Wait ready_first t =
     (if 0 < tr_ready t \<and> (ready_first \<or> \<not> tr_cancelled t) then Some (tr_err t)
      else if tr_cancelled t then Some (Some ErrCanceled) else None)"

section \<open>The two goroutines\<close>

datatype run_pc =
    R_none                                   \<comment> \<open>not started\<close>
  | R_ice                                    \<comment> \<open>\<open>connectICE\<close>, creating mux and agent\<close>
  | R_iceLock                                \<comment> \<open>about to publish the agent\<close>
  | R_gather                                 \<comment> \<open>gathering, adding candidates, dialling\<close>
  | R_muxLock                                \<comment> \<open>about to publish the packet multiplexer\<close>
  | R_handshake
  | R_result "resource set" "go_error option"  \<comment> \<open>calling \<open>setResult\<close>\<close>
  | R_pump bool
  | R_end                                    \<comment> \<open>the deferred \<open>close(t.ready)\<close>\<close>
  | R_done

datatype close_pc = C_idle | C_mark | C_first | C_start | C_wait | C_second | C_raw | C_done

record tsys =
  ts_t :: transport
  ts_run :: run_pc
  ts_close :: close_pc

definition t_init :: "tsys \<Rightarrow> bool" where
  "t_init s \<longleftrightarrow> s = \<lparr>ts_t = NewTransport, ts_run = R_none, ts_close = C_idle\<rparr>"

inductive tstep :: "tsys \<Rightarrow> tsys \<Rightarrow> bool" where
  start: "\<not> tr_startOnce (ts_t s) \<Longrightarrow>
    tstep s (s\<lparr>ts_t := (ts_t s)\<lparr>tr_startOnce := True\<rparr>, ts_run := R_ice\<rparr>)"
| agent_failed: "ts_run s = R_ice \<Longrightarrow>
    tstep s (s\<lparr>ts_t := (create {IceMux} (ts_t s))\<lparr>tr_shut := tr_shut (ts_t s) \<union> {IceMux}\<rparr>, ts_run := R_result {} (Some e)\<rparr>)"
| agent_made: "ts_run s = R_ice \<Longrightarrow> tstep s (s\<lparr>ts_t := create {IceMux, IceAgent} (ts_t s), ts_run := R_iceLock\<rparr>)"
| ice_publish: "ts_run s = R_iceLock \<Longrightarrow> publish {IceMux, IceAgent} (ts_t s) = (ok, t) \<Longrightarrow>
    tstep s (s\<lparr>ts_t := t, ts_run := (if ok then R_gather else R_result {} (Some ErrCanceled))\<rparr>)"
| ice_failed: "ts_run s = R_gather \<Longrightarrow> tstep s (s\<lparr>ts_run := R_result {} (Some e)\<rparr>)"
| ice_dialed: "ts_run s = R_gather \<Longrightarrow> tstep s (s\<lparr>ts_t := create {Mux} (ts_t s), ts_run := R_muxLock\<rparr>)"
| mux_publish: "ts_run s = R_muxLock \<Longrightarrow> publish {Mux} (ts_t s) = (ok, t) \<Longrightarrow>
    tstep s (s\<lparr>ts_t := t, ts_run := (if ok then R_handshake else R_end)\<rparr>)"
| handshake: "ts_run s = R_handshake \<Longrightarrow> establish h = (rs, err) \<Longrightarrow>
    tstep s (s\<lparr>ts_t := create rs (ts_t s), ts_run := R_result (rs \<union> {Mux}) err\<rparr>)"
| result: "ts_run s = R_result rs err \<Longrightarrow>
    tstep s (s\<lparr>ts_t := setResult rs err (ts_t s), ts_run := R_pump (err = None \<and> Srtp \<in> rs)\<rparr>)"
| pump: "ts_run s = R_pump b \<Longrightarrow>
    tstep s (s\<lparr>ts_t := (if b then startPump (ts_t s) else ts_t s), ts_run := R_end\<rparr>)"
| run_end: "ts_run s = R_end \<Longrightarrow>
    tstep s (s\<lparr>ts_t := (ts_t s)\<lparr>tr_ready := tr_ready (ts_t s) + 1\<rparr>, ts_run := R_done\<rparr>)"
| close_cancel: "ts_close s = C_idle \<Longrightarrow>
    tstep s (s\<lparr>ts_t := (ts_t s)\<lparr>tr_cancelled := True\<rparr>, ts_close := C_mark\<rparr>)"
| close_mark: "ts_close s = C_mark \<Longrightarrow>
    tstep s (s\<lparr>ts_t := (ts_t s)\<lparr>tr_closed := True\<rparr>, ts_close := C_first\<rparr>)"
| close_first: "ts_close s = C_first \<Longrightarrow> tstep s (s\<lparr>ts_t := closeResources (ts_t s), ts_close := C_start\<rparr>)"
| close_start: "ts_close s = C_start \<Longrightarrow> tstep s (s\<lparr>ts_t := close_unstarted (ts_t s), ts_close := C_wait\<rparr>)"
| close_wait: "ts_close s = C_wait \<Longrightarrow> 0 < tr_ready (ts_t s) \<Longrightarrow> tstep s (s\<lparr>ts_close := C_second\<rparr>)"
| close_second: "ts_close s = C_second \<Longrightarrow> tstep s (s\<lparr>ts_t := closeResources (ts_t s), ts_close := C_raw\<rparr>)"
| close_raw: "ts_close s = C_raw \<Longrightarrow>
    tstep s (s\<lparr>ts_t := (ts_t s)\<lparr>tr_shut := tr_shut (ts_t s) \<union> {Raw}\<rparr>, ts_close := C_done\<rparr>)"

section \<open>Invariants\<close>

text \<open>What \<open>run\<close> has created and not yet published or closed.\<close>

primrec held :: "run_pc \<Rightarrow> resource set" where
  "held R_none = {}"
| "held R_ice = {}"
| "held R_iceLock = {IceMux, IceAgent}"
| "held R_gather = {}"
| "held R_muxLock = {Mux}"
| "held R_handshake = {}"
| "held (R_result rs e) = rs"
| "held (R_pump b) = {}"
| "held R_end = {}"
| "held R_done = {}"

text \<open>\<open>run\<close> has called \<open>setResult\<close> (or given up because the transport is closed).\<close>

primrec finished :: "run_pc \<Rightarrow> bool" where
  "finished R_none = False"
| "finished R_ice = False"
| "finished R_iceLock = False"
| "finished R_gather = False"
| "finished R_muxLock = False"
| "finished R_handshake = False"
| "finished (R_result rs e) = False"
| "finished (R_pump b) = True"
| "finished R_end = True"
| "finished R_done = True"

text \<open>How far \<open>Close\<close> has got.\<close>

primrec cphase :: "close_pc \<Rightarrow> nat" where
  "cphase C_idle = 0"
| "cphase C_mark = 1"
| "cphase C_first = 2"
| "cphase C_start = 3"
| "cphase C_wait = 4"
| "cphase C_second = 5"
| "cphase C_raw = 6"
| "cphase C_done = 7"

text \<open>The channel \<open>ready\<close> is closed once, by \<open>run\<close> or by \<open>Close\<close>, whoever wins \<open>startOnce\<close>.\<close>

definition ready_inv :: "tsys \<Rightarrow> bool" where
  "ready_inv s \<longleftrightarrow>
     tr_ready (ts_t s) = (if (ts_run s = R_none \<and> tr_startOnce (ts_t s)) \<or> ts_run s = R_done then 1 else 0) \<and>
     (ts_run s \<noteq> R_none \<longrightarrow> tr_startOnce (ts_t s)) \<and>
     (4 \<le> cphase (ts_close s) \<longrightarrow> tr_startOnce (ts_t s)) \<and>
     (ts_run s = R_none \<and> tr_startOnce (ts_t s) \<longrightarrow> 4 \<le> cphase (ts_close s)) \<and>
     (5 \<le> cphase (ts_close s) \<longrightarrow> tr_ready (ts_t s) = 1)"

definition leak_inv :: "tsys \<Rightarrow> bool" where
  "leak_inv s \<longleftrightarrow>
     tr_made (ts_t s) \<subseteq> tr_fields (ts_t s) \<union> held (ts_run s) \<union> tr_shut (ts_t s) \<union> {Raw} \<and>
     (6 \<le> cphase (ts_close s) \<longrightarrow> tr_fields (ts_t s) \<subseteq> tr_shut (ts_t s)) \<and>
     (7 \<le> cphase (ts_close s) \<longrightarrow> Raw \<in> tr_shut (ts_t s))"

definition closed_inv :: "tsys \<Rightarrow> bool" where
  "closed_inv s \<longleftrightarrow> (tr_closed (ts_t s) \<longleftrightarrow> 2 \<le> cphase (ts_close s))"

text \<open>What \<open>run\<close> is about to report, and what it has reported.\<close>

definition result_inv :: "tsys \<Rightarrow> bool" where
  "result_inv s \<longleftrightarrow>
     (\<not> finished (ts_run s) \<longrightarrow> tr_fields (ts_t s) \<inter> {Dtls, Srtp, Srtcp} = {}) \<and>
     (ts_run s = R_handshake \<longrightarrow> Mux \<in> tr_fields (ts_t s)) \<and>
     (\<forall>rs e. ts_run s = R_result rs e \<longrightarrow> rs \<subseteq> {Mux, Dtls, Srtp, Srtcp} \<and>
        (Mux \<in> rs \<longrightarrow> Mux \<in> tr_fields (ts_t s)) \<and> (e = None \<longrightarrow> {Dtls, Srtp, Srtcp} \<subseteq> rs)) \<and>
     (finished (ts_run s) \<and> \<not> tr_closed (ts_t s) \<longrightarrow>
        tr_err (ts_t s) \<noteq> None \<or> {Dtls, Srtp, Srtcp} \<subseteq> tr_fields (ts_t s))"

definition t_inv :: "tsys \<Rightarrow> bool" where
  "t_inv s \<longleftrightarrow> ready_inv s \<and> closed_inv s \<and> leak_inv s \<and> result_inv s"

lemma establish_cases:
  assumes "establish h = (rs, err)"
  shows "rs \<subseteq> {Dtls, Srtp, Srtcp} \<and> (err = None \<longleftrightarrow> rs = {Dtls, Srtp, Srtcp})"
proof (cases "hs_new h")
  case None
  with assms show ?thesis
    by (auto simp: establish_def split: option.splits sum.splits if_splits)
next
  case (Some e)
  with assms have "rs = {}" "err = Some e" by (simp_all add: establish_def)
  then show ?thesis by simp
qed

lemmas section_defs = publish_def setResult_def closeResources_def startPump_def create_def close_unstarted_def

lemma publish_cases:
  assumes "publish rs t = (ok, t')"
  obtains "ok" "\<not> tr_closed t" "t' = t\<lparr>tr_fields := tr_fields t \<union> rs\<rparr>"
  | "\<not> ok" "tr_closed t" "t' = t\<lparr>tr_shut := tr_shut t \<union> rs\<rparr>"
  using assms by (auto simp: publish_def split: if_splits)

lemma ready_inv_step: "tstep s t \<Longrightarrow> ready_inv s \<Longrightarrow> ready_inv t"
  by (erule tstep.cases; (elim publish_cases)?; clarsimp simp: ready_inv_def section_defs split: if_splits)

lemma closed_inv_step: "tstep s t \<Longrightarrow> closed_inv s \<Longrightarrow> closed_inv t"
  by (erule tstep.cases; (elim publish_cases)?; simp add: closed_inv_def section_defs)

lemma result_inv_step:
  assumes "tstep s t" "closed_inv s" "ready_inv s" "result_inv s"
  shows "result_inv t"
  using assms
proof (cases rule: tstep.cases)
  case (handshake h rs err)
  then show ?thesis using assms(4) establish_cases [OF handshake(3)]
    by (auto simp: result_inv_def section_defs)
next
  case start
  then show ?thesis using assms(3,4) by (auto simp: result_inv_def ready_inv_def)
next
  case (ice_publish ok t')
  from ice_publish(3) show ?thesis using ice_publish assms(4)
    by (cases rule: publish_cases) (auto simp: result_inv_def)
next
  case (mux_publish ok t')
  from mux_publish(3) show ?thesis using mux_publish assms(4)
    by (cases rule: publish_cases) (auto simp: result_inv_def)
next
  case (result rs err)
  then show ?thesis using assms(4) by (auto simp: result_inv_def setResult_def)
qed (use assms(4) in \<open>auto simp: result_inv_def create_def closeResources_def startPump_def close_unstarted_def\<close>)

lemma leak_inv_step:
  assumes "tstep s t" "closed_inv s" "ready_inv s" "result_inv s" "leak_inv s"
  shows "leak_inv t"
  using assms
proof (cases rule: tstep.cases)
  case (ice_publish ok t')
  from ice_publish(3) show ?thesis using ice_publish assms(2,5)
    by (cases rule: publish_cases) (auto simp: leak_inv_def closed_inv_def)
next
  case (mux_publish ok t')
  from mux_publish(3) show ?thesis using mux_publish assms(2,5)
    by (cases rule: publish_cases) (auto simp: leak_inv_def closed_inv_def)
next
  case (result rs err)
  have "tr_fields (ts_t s) - {Dtls, Srtp, Srtcp} = tr_fields (ts_t s)"
    using assms(4) result by (auto simp: result_inv_def)
  moreover have "rs \<subseteq> tr_fields (ts_t s) \<union> {Dtls, Srtp, Srtcp}"
    using assms(4) result by (auto simp: result_inv_def)
  ultimately show ?thesis
    using assms(2,5) result by (auto simp: leak_inv_def setResult_def closed_inv_def)
qed (use assms(3,5) in \<open>auto simp: leak_inv_def ready_inv_def create_def closeResources_def startPump_def close_unstarted_def\<close>)

interpretation transport: safe_system t_init tstep t_inv
proof
  show "t_init s \<Longrightarrow> t_inv s" for s
    by (simp add: t_init_def t_inv_def ready_inv_def leak_inv_def result_inv_def closed_inv_def NewTransport_def)
  show "t_inv s \<Longrightarrow> tstep s t \<Longrightarrow> t_inv t" for s t
    by (simp add: t_inv_def ready_inv_step closed_inv_step result_inv_step leak_inv_step)
qed

section \<open>Progress\<close>

primrec rrank :: "run_pc \<Rightarrow> nat" where
  "rrank R_none = 0"
| "rrank R_ice = 8"
| "rrank R_iceLock = 7"
| "rrank R_gather = 6"
| "rrank R_muxLock = 5"
| "rrank R_handshake = 4"
| "rrank (R_result rs e) = 3"
| "rrank (R_pump b) = 2"
| "rrank R_end = 1"
| "rrank R_done = 0"

text \<open>Steps the two goroutines can still make.\<close>

definition t_measure :: "tsys \<Rightarrow> nat" where
  "t_measure s = (if tr_startOnce (ts_t s) then 0 else 10) + rrank (ts_run s) + (7 - cphase (ts_close s))"

lemma t_measure_step: "tstep s t \<Longrightarrow> t_measure t < t_measure s"
  by (erule tstep.cases; (elim publish_cases)?; simp add: t_measure_def section_defs)

lemma run_enabled:
  assumes "ts_run s \<noteq> R_none" "ts_run s \<noteq> R_done"
  shows "\<exists>t. tstep s t"
proof (cases "ts_run s")
  case R_iceLock
  obtain ok t where "publish {IceMux, IceAgent} (ts_t s) = (ok, t)" by fastforce
  with R_iceLock show ?thesis using tstep.ice_publish by blast
next
  case R_muxLock
  obtain ok t where "publish {Mux} (ts_t s) = (ok, t)" by fastforce
  with R_muxLock show ?thesis using tstep.mux_publish by blast
next
  case R_handshake
  obtain rs e where "establish undefined = (rs, e)" by fastforce
  with R_handshake show ?thesis using tstep.handshake by blast
qed (use assms in \<open>blast intro: tstep.intros\<close>)+

text \<open>Until \<open>Close\<close> returns there is a step that is not a \<open>Start\<close> by somebody else.\<close>

lemma close_enabled:
  assumes "ready_inv s" "ts_close s \<noteq> C_done"
  shows "\<exists>t. tstep s t \<and> (ts_run s = R_none \<longrightarrow> ts_run t = R_none)"
proof (cases "ts_close s")
  case C_wait
  show ?thesis
  proof (cases "tr_ready (ts_t s) = 0")
    case True
    with assms(1) C_wait have "ts_run s \<noteq> R_none" "ts_run s \<noteq> R_done"
      by (auto simp: ready_inv_def)
    then show ?thesis using run_enabled by blast
  next
    case False
    then have "tstep s (s\<lparr>ts_close := C_second\<rparr>)" using C_wait tstep.close_wait by simp
    then show ?thesis by (intro exI [of _ "s\<lparr>ts_close := C_second\<rparr>"]) simp
  qed
next
  case C_idle
  then show ?thesis using tstep.close_cancel [of s] by (intro exI conjI) (assumption | simp)+
next
  case C_mark
  then show ?thesis using tstep.close_mark [of s] by (intro exI conjI) (assumption | simp)+
next
  case C_first
  then show ?thesis using tstep.close_first [of s] by (intro exI conjI) (assumption | simp)+
next
  case C_start
  then show ?thesis using tstep.close_start [of s] by (intro exI conjI) (assumption | simp)+
next
  case C_second
  then show ?thesis using tstep.close_second [of s] by (intro exI conjI) (assumption | simp)+
next
  case C_raw
  then show ?thesis using tstep.close_raw [of s] by (intro exI conjI) (assumption | simp)+
qed (use assms(2) in simp)

section \<open>A concrete race\<close>

text \<open>\<open>Close\<close> overtakes \<open>run\<close> between the creation of the ICE agent and its publication.\<close>

abbreviation race :: "nat \<Rightarrow> bool \<Rightarrow> go_error option \<Rightarrow> resource set \<Rightarrow> resource set \<Rightarrow> run_pc \<Rightarrow> close_pc \<Rightarrow> tsys" where
  "race rdy cl e made sh r c \<equiv>
     \<lparr>ts_t = \<lparr>tr_startOnce = True, tr_ready = rdy, tr_cancelled = True, tr_closed = cl, tr_err = e,
        tr_fields = {}, tr_pumpOnce = False, tr_made = made, tr_shut = sh\<rparr>, ts_run = r, ts_close = c\<rparr>"

abbreviation race_made :: "resource set" where "race_made \<equiv> {IceMux, IceAgent, Raw}"

lemma race_start: "reach t_init tstep (race 0 False None race_made {} R_iceLock C_mark)"
proof -
  have "reach t_init tstep \<lparr>ts_t = NewTransport, ts_run = R_none, ts_close = C_idle\<rparr>"
    by (rule reach_init) (simp add: t_init_def)
  from reach_step [OF this tstep.start] have "reach t_init tstep \<lparr>ts_t = NewTransport\<lparr>tr_startOnce := True\<rparr>,
      ts_run = R_ice, ts_close = C_idle\<rparr>" by (simp add: NewTransport_def)
  from reach_step [OF this tstep.agent_made] have "reach t_init tstep \<lparr>ts_t = NewTransport\<lparr>tr_startOnce := True,
      tr_made := race_made\<rparr>, ts_run = R_iceLock, ts_close = C_idle\<rparr>"
    by (simp add: NewTransport_def create_def insert_commute)
  from reach_step [OF this tstep.close_cancel] show ?thesis by (simp add: NewTransport_def)
qed

lemma race_done: "reach t_init tstep (race 1 True None race_made race_made R_done C_done)"
proof -
  note race_start
  from reach_step [OF this tstep.close_mark] have "reach t_init tstep (race 0 True None race_made {} R_iceLock C_first)" by simp
  from reach_step [OF this tstep.close_first] have "reach t_init tstep (race 0 True None race_made {} R_iceLock C_start)"
    by (simp add: closeResources_def)
  from reach_step [OF this tstep.close_start] have "reach t_init tstep (race 0 True None race_made {} R_iceLock C_wait)"
    by (simp add: close_unstarted_def)
  from reach_step [OF this tstep.ice_publish [where ok = False]] have
      "reach t_init tstep (race 0 True None race_made {IceMux, IceAgent} (R_result {} (Some ErrCanceled)) C_wait)"
    by (simp add: publish_def)
  from reach_step [OF this tstep.result] have "reach t_init tstep (race 0 True None race_made {IceMux, IceAgent} (R_pump False) C_wait)"
    by (simp add: setResult_def)
  from reach_step [OF this tstep.pump [where b = False]] have "reach t_init tstep (race 0 True None race_made {IceMux, IceAgent} R_end C_wait)" by simp
  from reach_step [OF this tstep.run_end] have "reach t_init tstep (race 1 True None race_made {IceMux, IceAgent} R_done C_wait)" by simp
  from reach_step [OF this tstep.close_wait] have "reach t_init tstep (race 1 True None race_made {IceMux, IceAgent} R_done C_second)" by simp
  from reach_step [OF this tstep.close_second] have "reach t_init tstep (race 1 True None race_made {IceMux, IceAgent} R_done C_raw)"
    by (simp add: closeResources_def)
  from reach_step [OF this tstep.close_raw] show ?thesis by (simp add: insert_commute)
qed

text \<open>A transport that is closed without ever having been started: \<open>Close\<close> waits for \<open>ready\<close>, which
  it has closed itself.\<close>

abbreviation unstarted :: "nat \<Rightarrow> bool \<Rightarrow> bool \<Rightarrow> close_pc \<Rightarrow> tsys" where
  "unstarted rdy cl once c \<equiv>
     \<lparr>ts_t = NewTransport\<lparr>tr_cancelled := True, tr_closed := cl, tr_startOnce := once, tr_ready := rdy\<rparr>, ts_run = R_none, ts_close = c\<rparr>"

lemma unstarted_wait: "reach t_init tstep (unstarted 1 True True C_wait)"
proof -
  have "reach t_init tstep \<lparr>ts_t = NewTransport, ts_run = R_none, ts_close = C_idle\<rparr>"
    by (rule reach_init) (simp add: t_init_def)
  from reach_step [OF this tstep.close_cancel] have "reach t_init tstep (unstarted 0 False False C_mark)" by (simp add: NewTransport_def)
  from reach_step [OF this tstep.close_mark] have "reach t_init tstep (unstarted 0 True False C_first)" by (simp add: NewTransport_def)
  from reach_step [OF this tstep.close_first] have "reach t_init tstep (unstarted 0 True False C_start)"
    by (simp add: NewTransport_def closeResources_def)
  from reach_step [OF this tstep.close_start] show ?thesis by (simp add: NewTransport_def close_unstarted_def)
qed

text \<open>A call set-up that succeeds.\<close>

definition good_handshake :: handshake where
  "good_handshake = \<lparr>hs_new = None, hs_handshake = None, hs_profile = Some SRTP_AEAD_AES_128_GCM, hs_state = True,
     hs_keys = (\<lambda>_. None), hs_srtp = None, hs_srtcp = None\<rparr>"

abbreviation going :: "resource set \<Rightarrow> run_pc \<Rightarrow> tsys" where
  "going rs r \<equiv> \<lparr>ts_t = NewTransport\<lparr>tr_startOnce := True, tr_fields := rs, tr_made := rs \<union> {Raw}\<rparr>,
     ts_run = r, ts_close = C_idle\<rparr>"

definition connected_sys :: tsys where
  "connected_sys = \<lparr>ts_t = NewTransport\<lparr>tr_startOnce := True, tr_ready := 1, tr_pumpOnce := True,
      tr_fields := {IceMux, IceAgent, Mux, Dtls, Srtp, Srtcp}, tr_made := {IceMux, IceAgent, Mux, Dtls, Srtp, Srtcp, Raw}\<rparr>,
     ts_run = R_done, ts_close = C_idle\<rparr>"

lemma establish_good: "establish good_handshake = ({Dtls, Srtp, Srtcp}, None)"
  by (simp add: establish_def good_handshake_def)

lemma connected_reach: "reach t_init tstep connected_sys"
proof -
  have "reach t_init tstep \<lparr>ts_t = NewTransport, ts_run = R_none, ts_close = C_idle\<rparr>"
    by (rule reach_init) (simp add: t_init_def)
  from reach_step [OF this tstep.start] have "reach t_init tstep (going {} R_ice)" by (simp add: NewTransport_def)
  from reach_step [OF this tstep.agent_made]
  have "reach t_init tstep \<lparr>ts_t = NewTransport\<lparr>tr_startOnce := True, tr_made := {IceMux, IceAgent, Raw}\<rparr>,
      ts_run = R_iceLock, ts_close = C_idle\<rparr>" by (simp add: NewTransport_def create_def insert_commute)
  from reach_step [OF this tstep.ice_publish] have "reach t_init tstep (going {IceMux, IceAgent} R_gather)"
    by (simp add: NewTransport_def publish_def insert_commute)
  from reach_step [OF this tstep.ice_dialed]
  have "reach t_init tstep \<lparr>ts_t = NewTransport\<lparr>tr_startOnce := True, tr_fields := {IceMux, IceAgent},
      tr_made := {IceMux, IceAgent, Mux, Raw}\<rparr>, ts_run = R_muxLock, ts_close = C_idle\<rparr>"
    by (simp add: NewTransport_def create_def insert_commute)
  from reach_step [OF this tstep.mux_publish] have "reach t_init tstep (going {IceMux, IceAgent, Mux} R_handshake)"
    by (simp add: NewTransport_def publish_def insert_commute)
  from reach_step [OF this tstep.handshake, OF _ establish_good]
  have "reach t_init tstep \<lparr>ts_t = NewTransport\<lparr>tr_startOnce := True, tr_fields := {IceMux, IceAgent, Mux},
      tr_made := {IceMux, IceAgent, Mux, Dtls, Srtp, Srtcp, Raw}\<rparr>, ts_run = R_result {Dtls, Srtp, Srtcp, Mux} None, ts_close = C_idle\<rparr>"
    by (simp add: NewTransport_def create_def insert_commute)
  from reach_step [OF this tstep.result]
  have "reach t_init tstep (going {IceMux, IceAgent, Mux, Dtls, Srtp, Srtcp} (R_pump True))"
    by (simp add: NewTransport_def setResult_def insert_commute insert_Diff_if)
  from reach_step [OF reach_step [OF this tstep.pump [where b = True]] tstep.run_end] show ?thesis
    by (simp add: NewTransport_def startPump_def connected_sys_def insert_commute)
qed

section \<open>Properties\<close>

text \<open>
  C3: Whatever the interleaving of \<open>run\<close> and \<open>Close\<close>, and whichever library call fails, no
  resource leaks: when \<open>Close\<close> returns, every resource that was ever created (socket, ICE
  agent and its mux, packet multiplexer, DTLS connection, SRTP and SRTCP sessions) has been
  closed, \<open>run\<close> has returned or will never start, and \<open>ready\<close> was closed exactly once.
\<close>

theorem transport_close_releases:
  assumes "reach t_init tstep s" "ts_close s = C_done"
  shows "tr_made (ts_t s) \<subseteq> tr_shut (ts_t s) \<and> ts_run s \<in> {R_none, R_done} \<and> tr_startOnce (ts_t s) \<and>
    tr_ready (ts_t s) = 1"
proof -
  have inv: "ready_inv s" "leak_inv s" using transport.reach_inv [OF assms(1)] by (auto simp: t_inv_def)
  with assms(2) have "tr_ready (ts_t s) = 1" "tr_startOnce (ts_t s)" "ts_run s \<in> {R_none, R_done}"
    by (auto simp: ready_inv_def split: if_splits)
  moreover from this have "held (ts_run s) = {}" by auto
  ultimately show ?thesis using inv(2) assms(2) by (auto simp: leak_inv_def)
qed

theorem transport_close_releases_witness:
  "race_made \<subseteq> tr_shut (ts_t (race 1 True None race_made race_made R_done C_done))"
  using transport_close_releases [OF race_done] by simp

text \<open>
  C33: \<open>Close\<close> always completes and \<open>ready\<close> is never closed twice: in every reachable state
  \<open>ready\<close> was closed at most once, every step of either goroutine decreases a measure, and as
  long as \<open>Close\<close> has been called and has not returned, \<open>Close\<close> itself or a \<open>run\<close> that has
  already been started can take a step; nobody has to call \<open>Start\<close> for that, also if the
  transport was never started. (The blocking library calls in \<open>run\<close> are taken to return once
  the context is cancelled or their connection closed.)
\<close>

theorem transport_close_completes:
  assumes "reach t_init tstep s" "ts_close s \<noteq> C_idle"
  shows "tr_ready (ts_t s) \<le> 1 \<and> (ts_close s = C_done \<or> (\<exists>t. tstep s t \<and> (ts_run s = R_none \<longrightarrow> ts_run t = R_none))) \<and>
    (\<forall>t. tstep s t \<longrightarrow> t_measure t < t_measure s)"
proof -
  have "ready_inv s" using transport.reach_inv [OF assms(1)] by (simp add: t_inv_def)
  moreover from this have "tr_ready (ts_t s) \<le> 1" by (simp add: ready_inv_def)
  ultimately show ?thesis using close_enabled [of s] t_measure_step by blast
qed

theorem transport_close_completes_witness:
  "\<exists>t. tstep (unstarted 1 True True C_wait) t \<and> ts_run t = R_none"
  using transport_close_completes [OF unstarted_wait] by auto

text \<open>
  Waiters are released with a complete result: while the transport has not been closed,
  \<open>Wait\<close> returns nil only if the DTLS connection and both the SRTP and the SRTCP session are
  in place.
\<close>

lemma transport_ready_result:
  assumes "reach t_init tstep s" "t_Wait f (ts_t s) = Some None" "\<not> tr_closed (ts_t s)"
  shows "{Dtls, Srtp, Srtcp} \<subseteq> tr_fields (ts_t s)"
proof -
  have inv: "ready_inv s" "closed_inv s" "result_inv s"
    using transport.reach_inv [OF assms(1)] by (auto simp: t_inv_def)
  have "0 < tr_ready (ts_t s)" "tr_err (ts_t s) = None"
    using assms(2) by (auto simp: t_Wait_def split: if_splits)
  with inv(1,2) assms(3) have "ts_run s = R_done"
    by (auto simp: ready_inv_def closed_inv_def split: if_splits)
  with inv(3) assms(3) \<open>tr_err (ts_t s) = None\<close> show ?thesis by (auto simp: result_inv_def)
qed

lemma transport_ready_result_example:
  "{Dtls, Srtp, Srtcp} \<subseteq> tr_fields (ts_t connected_sys)"
proof -
  have "t_Wait True (ts_t connected_sys) = Some None" "\<not> tr_closed (ts_t connected_sys)"
    by (simp_all add: connected_sys_def NewTransport_def t_Wait_def)
  with transport_ready_result [OF connected_reach] show ?thesis by blast
qed

end
