(* ===== verification/PeerConnect.thy ===== *)
theory PeerConnect
  imports Sdp Transport
begin

text \<open>
  The parts of \<open>internal/media/transport.go\<close> that use the negotiated parameters: the
  certificate check of the DTLS handshake against the fingerprint of the SDP,
  \<open>connectICE\<close> with Meta's candidates and credentials, and the whole of \<open>run\<close> as one function,
  which is shown to be one of the interleavings of the theory \<open>Transport\<close>. Gathering, the
  context, the agent and the candidate parser are arguments (their results, \<open>None\<close> for a nil
  error).
\<close>

section \<open>Peer verification\<close>

text \<open>The \<open>VerifyPeerCertificate\<close> callback: the error, if the first certificate does not hash
  to the fingerprint of the SDP.\<close>

definition verify_peer :: "(nat list \<Rightarrow> nat list) \<Rightarrow> string \<Rightarrow> nat list list \<Rightarrow> go_error option" where
  "verify_peer sha256 remoteFingerprint rawCerts =
     (case rawCerts of
        [] \<Rightarrow> Some (ErrText ''DTLS peer sent no certificate'')
      | raw # _ \<Rightarrow>
          if \<not> equal_fold (colon_hex (sha256 raw)) remoteFingerprint
          then Some (ErrText ''DTLS peer fingerprint mismatch'') else None)"

section \<open>Connecting ICE\<close>

text \<open>Adding Meta's candidates to the agent: the first error ends it.\<close>

fun add_candidates :: "(string \<Rightarrow> 'c result) \<Rightarrow> ('c \<Rightarrow> go_error option) \<Rightarrow> ICECandidate list \<Rightarrow> go_error option" where
  "add_candidates unmarshal add [] = None"
| "add_candidates unmarshal add (rc # rcs) =
     (case unmarshal (ic_Raw rc) of
        Inl e \<Rightarrow> Some e
      | Inr c \<Rightarrow> (case add c of Some e \<Rightarrow> Some e | None \<Rightarrow> add_candidates unmarshal add rcs))"

text \<open>The loop that polls \<open>GetRemoteCandidates\<close> until all are known. Each element is one
  round: the answer, and the context's error if it ended before the next millisecond tick.
  \<open>None\<close>: still polling after these rounds.\<close>

fun poll_candidates :: "nat \<Rightarrow> (nat result \<times> go_error option) list \<Rightarrow> unit result option" where
  "poll_candidates wanted [] = None"
| "poll_candidates wanted ((cs, ctx_err) # rounds) =
     (case cs of
        Inl e \<Rightarrow> Some (Inl e)
      | Inr n \<Rightarrow>
          if wanted \<le> n then Some (Inr ())
          else (case ctx_err of Some e \<Rightarrow> Some (Inl e) | None \<Rightarrow> poll_candidates wanted rounds))"

text \<open>\<open>connectICE\<close> after the agent is published: gather, wait for the end of gathering (or
  the context's error), add the candidates, poll, dial.\<close>

definition connect_peer :: "go_error option \<Rightarrow> go_error option \<Rightarrow> (string \<Rightarrow> 'c result) \<Rightarrow> ('c \<Rightarrow> go_error option) \<Rightarrow>
    (nat result \<times> go_error option) list \<Rightarrow> (string \<Rightarrow> string \<Rightarrow> go_error option) \<Rightarrow> Negotiation \<Rightarrow> go_error option option" where
  "connect_peer gather wait unmarshal add rounds dial conf =
     (case gather of Some e \<Rightarrow> Some (Some e) | None \<Rightarrow>
     (case wait of Some e \<Rightarrow> Some (Some e) | None \<Rightarrow>
     (case add_candidates unmarshal add (ng_RemoteCandidates conf) of Some e \<Rightarrow> Some (Some e) | None \<Rightarrow>
     (case poll_candidates (length (ng_RemoteCandidates conf)) rounds of
        None \<Rightarrow> None
      | Some (Inl e) \<Rightarrow> Some (Some e)
      | Some (Inr u) \<Rightarrow> Some (dial (ng_RemoteUfrag conf) (ng_RemotePwd conf))))))"

section \<open>A whole run\<close>

text \<open>The configuration of the ICE agent: UDP over IPv4, host candidates only, announced under the
  public address.\<close>

record agentConfig =
  ag_LocalUfrag :: string
  ag_LocalPwd :: string
  ag_NAT1To1IPs :: "string list"

definition agent_config :: "Negotiation \<Rightarrow> agentConfig" where
  "agent_config conf = \<lparr>ag_LocalUfrag = ng_LocalUfrag conf, ag_LocalPwd = ng_LocalPwd conf,
     ag_NAT1To1IPs = [addr_String (fst (ng_Local conf))]\<rparr>"

text \<open>What the libraries answer during one run; \<open>re_hs\<close> depends on the DTLS role.\<close>

record 'c run_env =
  re_agent :: "agentConfig \<Rightarrow> go_error option"
  re_gather :: "go_error option"
  re_wait :: "go_error option"
  re_unmarshal :: "string \<Rightarrow> 'c result"
  re_add :: "'c \<Rightarrow> go_error option"
  re_rounds :: "(nat result \<times> go_error option) list"
  re_dial :: "string \<Rightarrow> string \<Rightarrow> go_error option"
  re_hs :: "bool \<Rightarrow> handshake"

definition ice_result :: "'c run_env \<Rightarrow> Negotiation \<Rightarrow> go_error option option" where
  "ice_result e conf = connect_peer (re_gather e) (re_wait e) (re_unmarshal e) (re_add e) (re_rounds e) (re_dial e) conf"

text \<open>The deferred \<open>close(t.ready)\<close>.\<close>

definition close_ready :: "transport \<Rightarrow> transport" where
  "close_ready t = t\<lparr>tr_ready := tr_ready t + 1\<rparr>"

text \<open>\<open>run\<close> from its start to its end while no other goroutine interferes; \<open>None\<close> as long as the poll
  for candidates goes on.\<close>

definition t_run :: "'c run_env \<Rightarrow> Negotiation \<Rightarrow> transport \<Rightarrow> transport option" where
  "t_run e conf t =
     (case re_agent e (agent_config conf) of
        Some err \<Rightarrow> Some (close_ready (setResult {} (Some err) ((create {IceMux} t)\<lparr>tr_shut := tr_shut t \<union> {IceMux}\<rparr>)))
      | None \<Rightarrow>
          (case publish {IceMux, IceAgent} (create {IceMux, IceAgent} t) of
             (False, t1) \<Rightarrow> Some (close_ready (setResult {} (Some ErrCanceled) t1))
           | (True, t1) \<Rightarrow>
               (case ice_result e conf of
                  None \<Rightarrow> None
                | Some (Some err) \<Rightarrow> Some (close_ready (setResult {} (Some err) t1))
                | Some None \<Rightarrow>
                    (case publish {Mux} (create {Mux} t1) of
                       (False, t2) \<Rightarrow> Some (close_ready t2)
                     | (True, t2) \<Rightarrow>
                         (case establish (re_hs e (ng_IsClient conf)) of
                            (rs, err) \<Rightarrow>
                              let t3 = setResult (rs \<union> {Mux}) err (create rs t2)
                              in Some (close_ready (if err = None \<and> Srtp \<in> rs then startPump t3 else t3)))))))"

section \<open>The order of failures\<close>

text \<open>The specification of a run's error, without its control flow: everything that can go wrong, in
  the order of RFC 8445 connectivity, the DTLS handshake and the SRTP sessions; the first
  failure counts. Polling contributes the rounds before the first one that knows all candidates.\<close>

fun first_error :: "go_error option list \<Rightarrow> go_error option" where
  "first_error [] = None"
| "first_error (Some e # xs) = Some e"
| "first_error (None # xs) = first_error xs"

definition candidate_errors :: "'c run_env \<Rightarrow> ICECandidate list \<Rightarrow> go_error option list" where
  "candidate_errors e rcs =
     concat (map (\<lambda>rc. case re_unmarshal e (ic_Raw rc) of Inl x \<Rightarrow> [Some x] | Inr c \<Rightarrow> [re_add e c]) rcs)"

definition poll_errors :: "nat \<Rightarrow> (nat result \<times> go_error option) list \<Rightarrow> go_error option list" where
  "poll_errors wanted rounds =
     map (\<lambda>(cs, ctx). case cs of Inl x \<Rightarrow> Some x | Inr n \<Rightarrow> ctx)
       (takeWhile (\<lambda>(cs, ctx). case cs of Inl x \<Rightarrow> True | Inr n \<Rightarrow> n < wanted) rounds)"

definition ice_errors :: "'c run_env \<Rightarrow> Negotiation \<Rightarrow> go_error option list" where
  "ice_errors e conf = [re_gather e, re_wait e] @ candidate_errors e (ng_RemoteCandidates conf) @
     poll_errors (length (ng_RemoteCandidates conf)) (re_rounds e) @ [re_dial e (ng_RemoteUfrag conf) (ng_RemotePwd conf)]"

definition dtls_errors :: "handshake \<Rightarrow> go_error option list" where
  "dtls_errors h =
     [hs_new h, hs_handshake h,
      (case hs_profile h of
         None \<Rightarrow> Some (ErrText ''DTLS did not negotiate SRTP'')
       | Some (OtherProfile s) \<Rightarrow> Some (ErrText (''unsupported SRTP profile '' @ s))
       | _ \<Rightarrow> None),
      (if hs_state h then None else Some (ErrText ''DTLS state unavailable'')),
      (if hs_profile h = Some SRTP_AEAD_AES_128_GCM then hs_keys h ProfileAeadAes128Gcm
       else hs_keys h ProfileAes128CmHmacSha1_80),
      hs_srtp h, hs_srtcp h]"

definition run_error :: "'c run_env \<Rightarrow> Negotiation \<Rightarrow> go_error option" where
  "run_error e conf = first_error (re_agent e (agent_config conf) # ice_errors e conf @ dtls_errors (re_hs e (ng_IsClient conf)))"

lemma first_error_append: "first_error (xs @ ys) = (case first_error xs of Some e \<Rightarrow> Some e | None \<Rightarrow> first_error ys)"
  by (induction xs rule: first_error.induct) auto

lemma first_error_Cons: "first_error (x # xs) = (case x of Some e \<Rightarrow> Some e | None \<Rightarrow> first_error xs)"
  by (cases x) auto

lemma add_candidates_first: "add_candidates (re_unmarshal e) (re_add e) rcs = first_error (candidate_errors e rcs)"
  by (induction rcs) (auto simp: candidate_errors_def first_error_Cons split: sum.splits option.splits)

lemma poll_candidates_first:
  "poll_candidates wanted rounds = Some r \<Longrightarrow> first_error (poll_errors wanted rounds) = (case r of Inl e \<Rightarrow> Some e | Inr u \<Rightarrow> None)"
  by (induction wanted rounds rule: poll_candidates.induct)
     (auto simp: poll_errors_def first_error_Cons split: sum.splits option.splits if_splits)

lemma ice_result_first:
  assumes "ice_result e conf = Some r"
  shows "first_error (ice_errors e conf) = r"
proof (cases "poll_candidates (length (ng_RemoteCandidates conf)) (re_rounds e)")
  case None
  with assms show ?thesis
    by (cases r; cases "re_gather e"; cases "re_wait e"; cases "first_error (candidate_errors e (ng_RemoteCandidates conf))")
       (simp_all add: ice_result_def connect_peer_def ice_errors_def add_candidates_first first_error_append first_error_Cons)
next
  case (Some p)
  note poll = poll_candidates_first [OF Some]
  from assms Some poll show ?thesis
    by (cases r; cases "re_gather e"; cases "re_wait e"; cases "first_error (candidate_errors e (ng_RemoteCandidates conf))"; cases p)
       (simp_all add: ice_result_def connect_peer_def ice_errors_def add_candidates_first first_error_append first_error_Cons
         split: option.splits)
qed

lemma establish_first: "snd (establish h) = first_error (dtls_errors h)"
  by (auto simp: establish_def dtls_errors_def first_error_Cons split: option.splits sum.splits dtls_profile.splits)

lemma run_error_stages:
  "re_agent e (agent_config conf) = Some x \<Longrightarrow> run_error e conf = Some x"
  "re_agent e (agent_config conf) = None \<Longrightarrow> ice_result e conf = Some (Some x) \<Longrightarrow> run_error e conf = Some x"
  "re_agent e (agent_config conf) = None \<Longrightarrow> ice_result e conf = Some None \<Longrightarrow>
     run_error e conf = snd (establish (re_hs e (ng_IsClient conf)))"
  by (auto simp: run_error_def first_error_append establish_first dest!: ice_result_first split: option.splits)

section \<open>Fingerprints as digests\<close>

lemma byte_lower: "65 \<le> byte c \<Longrightarrow> byte c \<le> 90 \<Longrightarrow> byte (ascii_lower c) = byte c + 32"
  by (simp add: ascii_lower_def)

lemma hex_val_lower: "hex_val (ascii_lower c) = hex_val c"
proof (cases "65 \<le> byte c \<and> byte c \<le> 90")
  case True
  then have "byte (ascii_lower c) = byte c + 32" by (simp add: byte_lower)
  with True show ?thesis by (auto simp: hex_val_def Let_def)
qed (auto simp: ascii_lower_def)

lemma ascii_lower_colon: "ascii_lower c = CHR '':'' \<longleftrightarrow> c = CHR '':''"
proof (cases "65 \<le> byte c \<and> byte c \<le> 90")
  case True
  then have "byte (ascii_lower c) = byte c + 32" by (simp add: byte_lower)
  with True have "byte (ascii_lower c) \<noteq> byte CHR '':''" "byte c \<noteq> byte CHR '':''" by auto
  then show ?thesis by auto
qed (auto simp: ascii_lower_def)

lemma hex_decode_lower: "hex_decode (map ascii_lower s) = hex_decode s"
  by (induction s rule: hex_decode.induct) (auto simp: hex_val_lower split: option.splits)

lemma replace_colons_lower:
  "replace_all CHR '':'' [] (map ascii_lower s) = map ascii_lower (replace_all CHR '':'' [] s)"
  by (induction s) (simp_all add: replace_all_filter ascii_lower_colon)

text \<open>Printed digests compare equal exactly when the digests do, in whatever letter case.\<close>

lemma equal_fold_colon_hex:
  assumes "list_all (\<lambda>b. b < 256) a" "list_all (\<lambda>b. b < 256) b"
  shows "equal_fold (colon_hex a) (colon_hex b) \<longleftrightarrow> a = b"
proof
  assume eq: "equal_fold (colon_hex a) (colon_hex b)"
  have "is_ascii (colon_hex a)" "is_ascii (colon_hex b)"
    using assms by (auto simp: colon_hex_upper_props intro: no_space_ascii)
  with eq have "map ascii_lower (colon_hex a) = map ascii_lower (colon_hex b)"
    by (simp add: equal_fold_def fold_case_ascii)
  then have "hex_decode (replace_all CHR '':'' [] (colon_hex a)) = hex_decode (replace_all CHR '':'' [] (colon_hex b))"
    by (metis replace_colons_lower hex_decode_lower)
  with assms show "a = b" by (simp add: hex_decode_colon_hex)
qed simp






section \<open>Connecting\<close>

lemma add_candidates_None:
  "add_candidates unmarshal add rcs = None \<longleftrightarrow>
   (\<forall>rc \<in> set rcs. \<exists>c. unmarshal (ic_Raw rc) = Inr c \<and> add c = None)"
  by (induction rcs) (auto split: sum.splits option.splits)

lemma poll_candidates_done:
  "poll_candidates wanted rounds = Some (Inr ()) \<Longrightarrow> \<exists>n ctx. (Inr n, ctx) \<in> set rounds \<and> wanted \<le> n"
  by (induction wanted rounds rule: poll_candidates.induct) (auto split: sum.splits option.splits if_splits)

lemma poll_candidates_returns:
  assumes "(cs, Some e) \<in> set rounds"
  shows "poll_candidates wanted rounds \<noteq> None"
  using assms
  by (induction wanted rounds rule: poll_candidates.induct) (auto split: sum.splits option.splits)

section \<open>A whole run as steps\<close>

lemma run_tail:
  assumes "ts_run s = R_result rs err"
  shows "tstep\<^sup>*\<^sup>* s (s\<lparr>ts_t := close_ready (if err = None \<and> Srtp \<in> rs then startPump (setResult rs err (ts_t s))
      else setResult rs err (ts_t s)), ts_run := R_done\<rparr>)"
proof -
  let ?b = "err = None \<and> Srtp \<in> rs"
  let ?s1 = "s\<lparr>ts_t := setResult rs err (ts_t s), ts_run := R_pump ?b\<rparr>"
  let ?s2 = "?s1\<lparr>ts_t := (if ?b then startPump (ts_t ?s1) else ts_t ?s1), ts_run := R_end\<rparr>"
  have "tstep s ?s1" using assms by (rule tstep.result)
  moreover have "tstep ?s1 ?s2" using tstep.pump [of ?s1 ?b] by simp
  moreover have "tstep ?s2 (?s2\<lparr>ts_t := close_ready (ts_t ?s2), ts_run := R_done\<rparr>)"
    using tstep.run_end [of ?s2] by (simp add: close_ready_def)
  ultimately have "tstep\<^sup>*\<^sup>* s (?s2\<lparr>ts_t := close_ready (ts_t ?s2), ts_run := R_done\<rparr>)"
    by (meson converse_rtranclp_into_rtranclp rtranclp.rtrancl_refl)
  then show ?thesis by (simp cong: if_cong)
qed

lemma run_setup:
  assumes "ts_run s = R_ice" "publish {IceMux, IceAgent} (create {IceMux, IceAgent} (ts_t s)) = (ok, t1)"
  shows "tstep\<^sup>*\<^sup>* s (s\<lparr>ts_t := t1, ts_run := (if ok then R_gather else R_result {} (Some ErrCanceled))\<rparr>)"
proof -
  let ?s1 = "s\<lparr>ts_t := create {IceMux, IceAgent} (ts_t s), ts_run := R_iceLock\<rparr>"
  have "tstep s ?s1" using assms(1) by (rule tstep.agent_made)
  moreover have "tstep ?s1 (s\<lparr>ts_t := t1, ts_run := (if ok then R_gather else R_result {} (Some ErrCanceled))\<rparr>)"
    using tstep.ice_publish [of ?s1 ok t1] assms(2) by simp
  ultimately show ?thesis by (meson converse_rtranclp_into_rtranclp rtranclp.rtrancl_refl)
qed

lemma run_connected:
  assumes "ts_run s = R_gather" "publish {Mux} (create {Mux} (ts_t s)) = (ok, t2)" "establish h = (rs, err)"
  shows "tstep\<^sup>*\<^sup>* s (if ok then s\<lparr>ts_t := create rs t2, ts_run := R_result (rs \<union> {Mux}) err\<rparr>
      else s\<lparr>ts_t := close_ready t2, ts_run := R_done\<rparr>)"
proof -
  let ?s1 = "s\<lparr>ts_t := create {Mux} (ts_t s), ts_run := R_muxLock\<rparr>"
  let ?s2 = "s\<lparr>ts_t := t2, ts_run := (if ok then R_handshake else R_end)\<rparr>"
  have "tstep s ?s1" using assms(1) by (rule tstep.ice_dialed)
  moreover have "tstep ?s1 ?s2" using tstep.mux_publish [of ?s1 ok t2] assms(2) by simp
  moreover have "tstep ?s2 (if ok then s\<lparr>ts_t := create rs t2, ts_run := R_result (rs \<union> {Mux}) err\<rparr>
      else s\<lparr>ts_t := close_ready t2, ts_run := R_done\<rparr>)"
    using tstep.handshake [of ?s2 h rs err] tstep.run_end [of ?s2] assms(3) by (cases ok) (simp_all add: close_ready_def)
  ultimately show ?thesis by (meson converse_rtranclp_into_rtranclp rtranclp.rtrancl_refl)
qed

text \<open>The undisturbed run is one of the interleavings.\<close>

lemma t_run_steps:
  assumes "ts_run s = R_ice" "t_run e conf (ts_t s) = Some t"
  shows "tstep\<^sup>*\<^sup>* s (s\<lparr>ts_t := t, ts_run := R_done\<rparr>)"
proof (cases "re_agent e (agent_config conf)")
  case (Some err)
  let ?s1 = "s\<lparr>ts_t := (create {IceMux} (ts_t s))\<lparr>tr_shut := tr_shut (ts_t s) \<union> {IceMux}\<rparr>, ts_run := R_result {} (Some err)\<rparr>"
  have "tstep s ?s1" using assms(1) by (rule tstep.agent_failed)
  moreover have "tstep\<^sup>*\<^sup>* ?s1 (s\<lparr>ts_t := t, ts_run := R_done\<rparr>)"
    using run_tail [of ?s1 "{}" "Some err"] assms(2) Some by (simp add: t_run_def)
  ultimately show ?thesis by (rule converse_rtranclp_into_rtranclp)
next
  case None
  obtain ok t1 where pub: "publish {IceMux, IceAgent} (create {IceMux, IceAgent} (ts_t s)) = (ok, t1)" by fastforce
  let ?s1 = "s\<lparr>ts_t := t1, ts_run := (if ok then R_gather else R_result {} (Some ErrCanceled))\<rparr>"
  have "tstep\<^sup>*\<^sup>* ?s1 (s\<lparr>ts_t := t, ts_run := R_done\<rparr>)"
  proof (cases "ok \<and> ice_result e conf = Some None")
    case True
    obtain ok2 t2 where pub2: "publish {Mux} (create {Mux} t1) = (ok2, t2)" by fastforce
    obtain rs err where est: "establish (re_hs e (ng_IsClient conf)) = (rs, err)" by fastforce
    let ?s2 = "s\<lparr>ts_t := create rs t2, ts_run := R_result (rs \<union> {Mux}) err\<rparr>"
    have "tstep\<^sup>*\<^sup>* ?s1 (if ok2 then ?s2 else s\<lparr>ts_t := close_ready t2, ts_run := R_done\<rparr>)"
      using run_connected [of ?s1 ok2 t2 "re_hs e (ng_IsClient conf)" rs err] pub2 est True by (simp cong: if_cong)
    moreover have "tstep\<^sup>*\<^sup>* ?s2 (s\<lparr>ts_t := t, ts_run := R_done\<rparr>)" if ok2
      using run_tail [of ?s2 "rs \<union> {Mux}" err] assms(2) None pub pub2 est True that
      by (simp add: t_run_def Let_def split: if_splits)
    moreover have "t = close_ready t2" if "\<not> ok2"
      using assms(2) None pub pub2 True that by (simp add: t_run_def)
    ultimately show ?thesis by (cases ok2) (auto intro: rtranclp_trans)
  next
    case False
    with assms(2) None pub obtain err where err: "t = close_ready (setResult {} (Some err) t1)" "ok \<or> err = ErrCanceled"
      by (auto simp: t_run_def split: bool.splits option.splits)
    let ?s2 = "s\<lparr>ts_t := t1, ts_run := R_result {} (Some err)\<rparr>"
    have "tstep\<^sup>*\<^sup>* ?s1 ?s2" using tstep.ice_failed [of ?s1 err] err(2) by auto
    moreover have "tstep\<^sup>*\<^sup>* ?s2 (s\<lparr>ts_t := t, ts_run := R_done\<rparr>)" using run_tail [of ?s2 "{}" "Some err"] err(1) by simp
    ultimately show ?thesis by (rule rtranclp_trans)
  qed
  with run_setup [OF assms(1) pub] show ?thesis by (rule rtranclp_trans)
qed

lemma establish_None: "establish h = (rs, None) \<Longrightarrow> hs_new h = None \<and> hs_handshake h = None \<and> rs = {Dtls, Srtp, Srtcp}"
  using establish_cases [of h rs None] by (auto simp: establish_def split: option.splits)

text \<open>A fresh transport after ICE, after the handshake and after the result.\<close>

definition run_ice :: "transport \<Rightarrow> transport" where
  "run_ice t = t\<lparr>tr_made := tr_made t \<union> {IceMux, IceAgent}, tr_fields := {IceMux, IceAgent}\<rparr>"

definition run_media :: "resource set \<Rightarrow> transport \<Rightarrow> transport" where
  "run_media rs t = t\<lparr>tr_made := tr_made t \<union> {Mux} \<union> rs, tr_fields := tr_fields t \<union> {Mux}\<rparr>"

definition run_outcome :: "resource set \<Rightarrow> go_error option \<Rightarrow> bool \<Rightarrow> transport \<Rightarrow> transport" where
  "run_outcome rs err b t = (if b then startPump (setResult rs err t) else setResult rs err t)"

lemma t_run_fresh:
  assumes "\<not> tr_closed t" "tr_fields t = {}" "re_agent e (agent_config conf) = None"
  shows "t_run e conf t =
    (case ice_result e conf of
       None \<Rightarrow> None
     | Some (Some x) \<Rightarrow> Some (close_ready (setResult {} (Some x) (run_ice t)))
     | Some None \<Rightarrow>
         (case establish (re_hs e (ng_IsClient conf)) of
            (rs, err) \<Rightarrow> Some (close_ready (run_outcome (rs \<union> {Mux}) err (err = None \<and> Srtp \<in> rs) (run_media rs (run_ice t))))))"
proof -
  have ice: "publish {IceMux, IceAgent} (create {IceMux, IceAgent} t) = (True, run_ice t)"
    using assms(1,2) by (simp add: publish_def create_def run_ice_def)
  have mux: "publish {Mux} (create {Mux} (run_ice t)) = (True, run_media {} (run_ice t))"
    using assms(1) by (simp add: publish_def create_def run_ice_def run_media_def)
  have "create rs (run_media {} (run_ice t)) = run_media rs (run_ice t)" for rs
    by (simp add: create_def run_media_def)
  with ice mux assms(3) show ?thesis
    by (simp add: t_run_def run_outcome_def Let_def split: option.splits prod.splits)
qed

text \<open>Libraries that answer without errors.\<close>

definition demo_run_env :: "unit run_env" where
  "demo_run_env = \<lparr>re_agent = (\<lambda>_. None), re_gather = None, re_wait = None, re_unmarshal = (\<lambda>_. Inr ()), re_add = (\<lambda>_. None),
     re_rounds = [(Inr 0, None), (Inr 1, None)], re_dial = (\<lambda>_ _. None), re_hs = (\<lambda>_. good_handshake)\<rparr>"

section \<open>Properties\<close>

text \<open>
  C18: What \<open>Wait\<close> reports is exactly what happened: after an undisturbed \<open>run\<close> on a fresh
  transport, \<open>ready\<close> is closed once and \<open>Wait\<close> returns the first failure in the list of all that
  can fail (the agent, gathering, Meta's candidates, polling and dialling, then the DTLS
  connection, its handshake, profile and state, the keys and the two SRTP sessions), or nil; nil means that every connection and session is in place and the
  inbound pump runs; and whatever was created is either a field of the transport, so that
  \<open>Close\<close> finds it, or closed already.
\<close>

theorem transport_run_outcome:
  assumes "t_run e conf t = Some t'" "\<not> tr_closed t" "tr_ready t = 0" "tr_fields t = {}"
  shows "t_Wait True t' = Some (run_error e conf) \<and> tr_ready t' = 1 \<and>
    (run_error e conf = None \<longrightarrow> tr_fields t' = {IceMux, IceAgent, Mux, Dtls, Srtp, Srtcp} \<and> tr_pumpOnce t') \<and>
    tr_made t' \<subseteq> tr_made t \<union> tr_fields t' \<union> tr_shut t'"
proof -
  obtain rs err where est: "establish (re_hs e (ng_IsClient conf)) = (rs, err)" by fastforce
  note sub = establish_cases [OF est]
  have ok: "rs = {Dtls, Srtp, Srtcp}" if "err = None"
  proof -
    have "establish (re_hs e (ng_IsClient conf)) = (rs, None)" using est that by simp
    from establish_None [OF this] show ?thesis by simp
  qed
  show ?thesis
  proof (cases "re_agent e (agent_config conf)")
    case (Some x)
    then have "t_run e conf t = Some (close_ready (setResult {} (Some x) ((create {IceMux} t)\<lparr>tr_shut := tr_shut t \<union> {IceMux}\<rparr>)))"
      by (simp add: t_run_def)
    with assms(1) have "t' = close_ready (setResult {} (Some x) ((create {IceMux} t)\<lparr>tr_shut := tr_shut t \<union> {IceMux}\<rparr>))" by simp
    moreover have "run_error e conf = Some x" using Some by (rule run_error_stages(1))
    ultimately show ?thesis using assms(2,3)
      by (auto simp: create_def setResult_def close_ready_def t_Wait_def)
  next
    case None
    note run = t_run_fresh [OF assms(2,4) None]
    show ?thesis
    proof (cases "ice_result e conf = Some None")
      case True
      then have err: "run_error e conf = err" using None est run_error_stages(3) [of e conf] by simp
      have "t' = close_ready (run_outcome (rs \<union> {Mux}) err (err = None \<and> Srtp \<in> rs) (run_media rs (run_ice t)))"
        using run True est assms(1) by simp
      then show ?thesis using err assms(2,3) sub ok
        by (cases err) (auto simp: run_outcome_def run_media_def run_ice_def close_ready_def t_Wait_def setResult_def startPump_def)
    next
      case False
      with run assms(1) obtain x where "ice_result e conf = Some (Some x)" "t' = close_ready (setResult {} (Some x) (run_ice t))"
        by (auto split: option.splits)
      with None assms(2,3) run_error_stages(2) [of e conf x] show ?thesis
        by (auto simp: run_ice_def setResult_def close_ready_def t_Wait_def)
    qed
  qed
qed

theorem transport_run_outcome_witness:
  "\<exists>t'. t_run demo_run_env ((demo_local ''active'' True)\<lparr>ng_RemoteFingerprint := colon_hex (replicate 32 170)\<rparr>) NewTransport = Some t' \<and>
     t_Wait True t' = Some None \<and> tr_pumpOnce t'"
proof -
  let ?n = "(demo_local ''active'' True)\<lparr>ng_RemoteFingerprint := colon_hex (replicate 32 170)\<rparr>"
  have "ng_RemoteCandidates ?n = []" by (simp add: demo_local_def Let_def)
  then have env: "ice_result demo_run_env ?n = Some None" "re_hs demo_run_env b = good_handshake"
      "re_agent demo_run_env a = None" for a b
    by (simp_all add: ice_result_def connect_peer_def demo_run_env_def)
  have "\<exists>t'. t_run demo_run_env ?n NewTransport = Some t'"
    using t_run_fresh [of NewTransport demo_run_env ?n] env by (simp add: NewTransport_def split: prod.splits)
  then obtain t' where t': "t_run demo_run_env ?n NewTransport = Some t'" by blast
  have "run_error demo_run_env ?n = None" using env establish_good run_error_stages(3) [of demo_run_env ?n] by simp
  then show ?thesis
    using transport_run_outcome [OF t'] t' by (simp add: NewTransport_def)
qed

text \<open>
  The DTLS handshake is pinned to the SDP: with a remote fingerprint written as the SDP
  grammar prescribes, the certificate callback accepts exactly the certificates whose first
  entry hashes to the announced digest; a peer without a certificate is refused.
\<close>

lemma verify_peer_exact:
  assumes "\<And>raw. list_all (\<lambda>b. b < 256) (sha256 raw)" "list_all (\<lambda>b. b < 256) digest"
  shows "verify_peer sha256 (colon_hex digest) certs = None \<longleftrightarrow>
    (\<exists>raw rest. certs = raw # rest \<and> sha256 raw = digest)"
  using assms by (auto simp: verify_peer_def equal_fold_colon_hex split: list.splits)

lemma verify_peer_exact_example:
  "verify_peer (\<lambda>raw. replicate 32 (length raw mod 256)) (colon_hex (replicate 32 2)) [[7, 7]] = None"
proof -
  have "\<exists>raw rest. [[7, 7]] = raw # rest \<and> replicate 32 (length raw mod 256) = replicate 32 2" by simp
  then show ?thesis
    by (subst verify_peer_exact) (auto simp: list_all_iff)
qed

text \<open>
  \<open>connectICE\<close> returns as soon as the context ends, and it succeeds only after every
  candidate of the negotiation was parsed and added, the agent knew at least that many remote
  candidates, and the connection was dialled with the remote credentials of the negotiation.
\<close>

lemma connect_peer_complete:
  assumes "(cs, Some e) \<in> set rounds"
  shows "connect_peer gather wait unmarshal add rounds dial conf \<noteq> None \<and>
    (connect_peer gather wait unmarshal add rounds dial conf = Some None \<longrightarrow>
       (\<forall>rc \<in> set (ng_RemoteCandidates conf). \<exists>c. unmarshal (ic_Raw rc) = Inr c \<and> add c = None) \<and>
       (\<exists>n ctx. (Inr n, ctx) \<in> set rounds \<and> length (ng_RemoteCandidates conf) \<le> n) \<and>
       dial (ng_RemoteUfrag conf) (ng_RemotePwd conf) = None)"
  using poll_candidates_returns [OF assms, of "length (ng_RemoteCandidates conf)"]
    poll_candidates_done [of "length (ng_RemoteCandidates conf)" rounds]
  by (auto simp: connect_peer_def add_candidates_None split: option.splits sum.splits)

lemma connect_peer_complete_example:
  "connect_peer None None (\<lambda>s. Inr s) (\<lambda>c. None) [(Inr 0, Some ErrCanceled)] (\<lambda>u p. None)
     (demo_local ''active'' True) = Some None \<and>
   (\<exists>n ctx. (Inr n, ctx) \<in> set [(Inr 0 :: nat result, Some ErrCanceled)] \<and>
      length (ng_RemoteCandidates (demo_local ''active'' True)) \<le> n)"
proof -
  have "connect_peer None None (\<lambda>s. Inr s) (\<lambda>c. None) [(Inr 0, Some ErrCanceled)] (\<lambda>u p. None)
     (demo_local ''active'' True) = Some None"
    by (simp add: connect_peer_def demo_local_def Let_def)
  moreover have "(Inr 0, Some ErrCanceled) \<in> set [(Inr 0 :: nat result, Some ErrCanceled)]" by simp
  ultimately show ?thesis using connect_peer_complete by fastforce
qed



end
