(* ===== verification/PacketMux.thy ===== *)
theory PacketMux
  imports Prelude "HOL-Library.Sublist"
begin

text \<open>
  The packet multiplexer at the end of \<open>internal/media/transport.go\<close>: one connection whose
  datagrams the read loop sorts by their first bytes (RFC 7983) into three endpoints with
  bounded queues, for DTLS, SRTP and SRTCP. The operations are functions on the multiplexer;
  \<open>mux_step\<close> interleaves the read loop, the three readers and \<open>Close\<close>, each at the
  granularity of one channel operation, over a history of what was read and delivered.
\<close>

section \<open>State\<close>

datatype chan_name = Ch_dtls | Ch_srtp | Ch_srtcp

record packet =
  pk_b :: "u8 list"
  pk_addr :: string

record endpoint =
  ep_packets :: "packet list"
  ep_closed :: bool

text \<open>\<open>mx_once\<close> is how far the body of \<open>m.once\<close> has run: 0 before \<open>Close\<close>, 5 when done.\<close>

record packetMux =
  mx_dtls :: endpoint
  mx_srtp :: endpoint
  mx_srtcp :: endpoint
  mx_closed :: bool
  mx_connClosed :: bool
  mx_once :: nat

definition endpointQueue :: nat where "endpointQueue = 128"

definition newEndpoint :: endpoint where
  "newEndpoint = \<lparr>ep_packets = [], ep_closed = False\<rparr>"

definition newPacketMux :: packetMux where
  "newPacketMux = \<lparr>mx_dtls = newEndpoint, mx_srtp = newEndpoint, mx_srtcp = newEndpoint,
     mx_closed = False, mx_connClosed = False, mx_once = 0\<rparr>"

primrec mx_ep :: "packetMux \<Rightarrow> chan_name \<Rightarrow> endpoint" where
  "mx_ep m Ch_dtls = mx_dtls m"
| "mx_ep m Ch_srtp = mx_srtp m"
| "mx_ep m Ch_srtcp = mx_srtcp m"

primrec mx_set :: "chan_name \<Rightarrow> endpoint \<Rightarrow> packetMux \<Rightarrow> packetMux" where
  "mx_set Ch_dtls e m = m\<lparr>mx_dtls := e\<rparr>"
| "mx_set Ch_srtp e m = m\<lparr>mx_srtp := e\<rparr>"
| "mx_set Ch_srtcp e m = m\<lparr>mx_srtcp := e\<rparr>"

section \<open>Operations\<close>

text \<open>The endpoint a datagram belongs to; \<open>None\<close> is the \<open>continue\<close> of the read loop (an
  empty read, or a first byte that is neither DTLS nor RTP).\<close>

definition classify :: "u8 list \<Rightarrow> chan_name option" where
  "classify b =
     (case b of
        [] \<Rightarrow> None
      | b0 # rest \<Rightarrow>
          if 20 \<le> b0 \<and> b0 \<le> 63 then Some Ch_dtls
          else if 128 \<le> b0 \<and> b0 \<le> 191 then
            (case rest of
               [] \<Rightarrow> Some Ch_srtp
             | b1 # _ \<Rightarrow> if 192 \<le> b1 \<and> b1 \<le> 223 then Some Ch_srtcp else Some Ch_srtp)
          else None)"

text \<open>Sending on a buffered channel of 128: blocked (no change) while it is full.\<close>

definition ep_send :: "packet \<Rightarrow> packet list \<Rightarrow> packet list" where
  "ep_send p q = (if length q < endpointQueue then q @ [p] else q)"

definition ep_Close :: "endpoint \<Rightarrow> endpoint" where
  "ep_Close e = e\<lparr>ep_closed := True\<rparr>"

text \<open>\<open>ReadFrom\<close>: \<open>closed_first\<close> is the choice of \<open>select\<close> when both channels are ready,
  \<open>None\<close> means that the call blocks. At most \<open>n\<close> bytes are copied.\<close>

definition ep_ReadFrom :: "bool \<Rightarrow> nat \<Rightarrow> endpoint \<Rightarrow> ((u8 list \<times> string) result \<times> endpoint) option" where
  "ep_ReadFrom closed_first n e =
     (if ep_closed e \<and> (closed_first \<or> ep_packets e = []) then Some (Inl ErrEOF, e)
      else case ep_packets e of
        [] \<Rightarrow> None
      | p # ps \<Rightarrow> Some (Inr (take n (pk_b p), pk_addr p), e\<lparr>ep_packets := ps\<rparr>))"

definition ep_WriteTo :: "(u8 list \<Rightarrow> nat result) \<Rightarrow> u8 list \<Rightarrow> endpoint \<Rightarrow> nat result" where
  "ep_WriteTo conn_write b e = (if ep_closed e then Inl ErrEOF else conn_write b)"

text \<open>The five statements inside \<open>m.once\<close>, one at a time, and the whole \<open>Close\<close>.\<close>

definition mux_close_next :: "packetMux \<Rightarrow> packetMux" where
  "mux_close_next m =
     (if mx_once m = 0 then m\<lparr>mx_closed := True, mx_once := 1\<rparr>
      else if mx_once m = 1 then m\<lparr>mx_connClosed := True, mx_once := 2\<rparr>
      else if mx_once m = 2 then m\<lparr>mx_dtls := ep_Close (mx_dtls m), mx_once := 3\<rparr>
      else if mx_once m = 3 then m\<lparr>mx_srtp := ep_Close (mx_srtp m), mx_once := 4\<rparr>
      else if mx_once m = 4 then m\<lparr>mx_srtcp := ep_Close (mx_srtcp m), mx_once := 5\<rparr>
      else m)"

definition mux_Close :: "packetMux \<Rightarrow> packetMux" where
  "mux_Close m = (mux_close_next ^^ 5) m"

lemma mux_once_next: "mx_once m \<le> 5 \<Longrightarrow> mx_once (mux_close_next m) = min 5 (mx_once m + 1)"
  by (auto simp: mux_close_next_def)

lemma mux_close_next_done: "5 \<le> mx_once m \<Longrightarrow> mux_close_next m = m"
  by (simp add: mux_close_next_def)

lemma mux_close_next_done_iter: "5 \<le> mx_once m \<Longrightarrow> (mux_close_next ^^ k) m = m"
  by (induction k) (simp_all add: mux_close_next_done)

lemma mux_once_iter: "mx_once m \<le> 5 \<Longrightarrow> mx_once ((mux_close_next ^^ k) m) = min 5 (mx_once m + k)"
  by (induction k) (simp_all add: mux_once_next)

lemma mux_Close_once: "5 \<le> mx_once (mux_Close m)"
proof (cases "mx_once m \<le> 5")
  case True
  then show ?thesis by (simp add: mux_Close_def mux_once_iter)
next
  case False
  then show ?thesis by (simp add: mux_Close_def mux_close_next_done_iter del: funpow.simps)
qed

interpretation mux_once: one_shot mux_Close "\<lambda>m. 5 \<le> mx_once m"
proof
  show "5 \<le> mx_once (mux_Close m)" for m by (rule mux_Close_once)
  show "5 \<le> mx_once m \<Longrightarrow> mux_Close m = m" for m
    unfolding mux_Close_def by (rule mux_close_next_done_iter)
qed

interpretation ep_once: one_shot ep_Close ep_closed
  by unfold_locales (simp_all add: ep_Close_def)

interpretation ep_queue: bounded_channel endpointQueue ep_send
proof
  show "length q \<le> endpointQueue \<Longrightarrow> length (ep_send x q) \<le> endpointQueue" for x q
    by (simp add: ep_send_def)
  show "\<exists>k. ep_send x q = drop k (q @ [x]) \<or> ep_send x q = q" for x q
    unfolding ep_send_def by (rule exI [of _ 0]) simp
qed

section \<open>The running multiplexer\<close>

text \<open>Where the read loop stands: in \<open>conn.Read\<close>, in the \<open>select\<close> with a packet for an
  endpoint, in its own call of \<open>Close\<close> after a read error, or returned.\<close>

datatype loop_pc = L_read | L_send chan_name packet | L_close | L_done

record mux_sys =
  ms_mux :: packetMux
  ms_loop :: loop_pc
  ms_failed :: bool                         \<comment> \<open>the connection has failed by itself\<close>
  ms_recv :: "packet list"                  \<comment> \<open>history: packets read from the connection\<close>
  ms_out :: "chan_name \<Rightarrow> packet list"      \<comment> \<open>history: packets taken by the reader of an endpoint\<close>

definition mux_init :: "mux_sys \<Rightarrow> bool" where
  "mux_init s \<longleftrightarrow> s = \<lparr>ms_mux = newPacketMux, ms_loop = L_read, ms_failed = False, ms_recv = [], ms_out = (\<lambda>_. [])\<rparr>"

text \<open>What the loop does with the bytes of one read.\<close>

definition loop_received :: "packet \<Rightarrow> mux_sys \<Rightarrow> mux_sys" where
  "loop_received p s = s\<lparr>ms_recv := ms_recv s @ [p],
     ms_loop := (case classify (pk_b p) of None \<Rightarrow> L_read | Some c \<Rightarrow> L_send c p)\<rparr>"

text \<open>\<open>conn.Read\<close> returns an error only if the connection was closed or has failed; otherwise it
  blocks until there is a datagram. Datagrams that were buffered may still be read after the
  connection is closed.\<close>

inductive mux_step :: "mux_sys \<Rightarrow> mux_sys \<Rightarrow> bool" where
  read: "ms_loop s = L_read \<Longrightarrow> length (pk_b p) \<le> 2048 \<Longrightarrow> mux_step s (loop_received p s)"
| conn_fails: "mux_step s (s\<lparr>ms_failed := True\<rparr>)"
| read_error: "ms_loop s = L_read \<Longrightarrow> mx_connClosed (ms_mux s) \<or> ms_failed s \<Longrightarrow> mux_step s (s\<lparr>ms_loop := L_close\<rparr>)"
| send: "ms_loop s = L_send c p \<Longrightarrow> e = mx_ep (ms_mux s) c \<Longrightarrow> length (ep_packets e) < endpointQueue \<Longrightarrow>
    mux_step s (s\<lparr>ms_mux := mx_set c (e\<lparr>ep_packets := ep_send p (ep_packets e)\<rparr>) (ms_mux s), ms_loop := L_read\<rparr>)"
| endpoint_closed: "ms_loop s = L_send c p \<Longrightarrow> ep_closed (mx_ep (ms_mux s) c) \<Longrightarrow>
    mux_step s (s\<lparr>ms_loop := L_read\<rparr>)"
| mux_closed: "ms_loop s = L_send c p \<Longrightarrow> mx_closed (ms_mux s) \<Longrightarrow> mux_step s (s\<lparr>ms_loop := L_done\<rparr>)"
| loop_closed: "ms_loop s = L_close \<Longrightarrow> mx_once (ms_mux s) = 5 \<Longrightarrow> mux_step s (s\<lparr>ms_loop := L_done\<rparr>)"
| close_next: "mux_step s (s\<lparr>ms_mux := mux_close_next (ms_mux s)\<rparr>)"
| close_endpoint: "mux_step s (s\<lparr>ms_mux := mx_set c (ep_Close (mx_ep (ms_mux s) c)) (ms_mux s)\<rparr>)"
| take_packet: "ep_ReadFrom False n (mx_ep (ms_mux s) c) = Some (Inr r, e) \<Longrightarrow>
    p = hd (ep_packets (mx_ep (ms_mux s) c)) \<Longrightarrow>
    mux_step s (s\<lparr>ms_mux := mx_set c e (ms_mux s), ms_out := (ms_out s)(c := ms_out s c @ [p])\<rparr>)"

definition routed :: "chan_name \<Rightarrow> packet list \<Rightarrow> packet list" where
  "routed c ps = filter (\<lambda>p. classify (pk_b p) = Some c) ps"

text \<open>The packets of an endpoint: taken, queued, and in the hands of the loop.\<close>

definition in_flight :: "chan_name \<Rightarrow> loop_pc \<Rightarrow> packet list" where
  "in_flight c l = (case l of L_send d p \<Rightarrow> if d = c then [p] else [] | _ \<Rightarrow> [])"

definition passed :: "chan_name \<Rightarrow> mux_sys \<Rightarrow> packet list" where
  "passed c s = ms_out s c @ ep_packets (mx_ep (ms_mux s) c) @ in_flight c (ms_loop s)"

definition chan_inv :: "chan_name \<Rightarrow> mux_sys \<Rightarrow> bool" where
  "chan_inv c s \<longleftrightarrow> subseq (passed c s) (routed c (ms_recv s)) \<and>
     (\<not> ep_closed (mx_ep (ms_mux s) c) \<and> \<not> mx_closed (ms_mux s) \<longrightarrow> passed c s = routed c (ms_recv s)) \<and>
     length (ep_packets (mx_ep (ms_mux s) c)) \<le> endpointQueue"

text \<open>What the statements of \<open>Close\<close> that have run leave behind.\<close>

definition close_inv :: "packetMux \<Rightarrow> bool" where
  "close_inv m \<longleftrightarrow> (mx_closed m \<longleftrightarrow> 0 < mx_once m) \<and> mx_once m \<le> 5 \<and> (1 < mx_once m \<longrightarrow> mx_connClosed m) \<and>
     (2 < mx_once m \<longrightarrow> ep_closed (mx_dtls m)) \<and> (3 < mx_once m \<longrightarrow> ep_closed (mx_srtp m)) \<and>
     (4 < mx_once m \<longrightarrow> ep_closed (mx_srtcp m))"

definition mux_inv :: "mux_sys \<Rightarrow> bool" where
  "mux_inv s \<longleftrightarrow> (\<forall>c. chan_inv c s) \<and> close_inv (ms_mux s)"

lemma mx_ep_set [simp]: "mx_ep (mx_set c e m) d = (if c = d then e else mx_ep m d)"
  by (cases c; cases d) simp_all

lemma mx_set_other [simp]: "mx_closed (mx_set c e m) = mx_closed m" "mx_once (mx_set c e m) = mx_once m"
  by (cases c; simp)+

lemma mux_close_next_ep:
  "ep_packets (mx_ep (mux_close_next m) c) = ep_packets (mx_ep m c)"
  "ep_closed (mx_ep m c) \<Longrightarrow> ep_closed (mx_ep (mux_close_next m) c)"
  "mx_closed m \<Longrightarrow> mx_closed (mux_close_next m)"
  "mx_closed m = (0 < mx_once m) \<Longrightarrow> mx_closed (mux_close_next m)"
  by (cases c; auto simp: mux_close_next_def ep_Close_def)+

lemma subseq_init: "subseq (xs @ [p]) ys \<Longrightarrow> subseq xs ys"
  by (meson subseq_order.trans subseq_rev_drop_many subseq_order.refl)

lemma ep_ReadFrom_packet:
  "ep_ReadFrom f n e = Some (Inr r, e') \<Longrightarrow>
   \<exists>p ps. ep_packets e = p # ps \<and> e' = e\<lparr>ep_packets := ps\<rparr> \<and> r = (take n (pk_b p), pk_addr p)"
  by (auto simp: ep_ReadFrom_def split: if_splits list.splits)

lemma passed_received:
  "ms_loop s = L_read \<Longrightarrow> passed c (loop_received p s) = passed c s @ routed c [p]"
  by (auto simp: passed_def loop_received_def in_flight_def routed_def split: option.splits)

lemma chan_inv_read:
  assumes "chan_inv c s" "ms_loop s = L_read"
  shows "chan_inv c (loop_received p s)"
proof -
  have "routed c (ms_recv (loop_received p s)) = routed c (ms_recv s) @ routed c [p]"
      "ms_mux (loop_received p s) = ms_mux s"
    by (simp_all add: loop_received_def routed_def)
  with assms passed_received [OF assms(2), of c p] show ?thesis
    by (simp add: chan_inv_def)
qed

lemma chan_inv_drop:
  assumes "chan_inv c s" "ms_loop s = L_send d p" "in_flight c l = []"
    and "c = d \<Longrightarrow> ep_closed (mx_ep (ms_mux s) c) \<or> mx_closed (ms_mux s)"
  shows "chan_inv c (s\<lparr>ms_loop := l\<rparr>)"
proof (cases "c = d")
  case True
  have "subseq (ms_out s c @ ep_packets (mx_ep (ms_mux s) c)) (routed c (ms_recv s))"
    using assms(1,2) True subseq_init [of "ms_out s c @ ep_packets (mx_ep (ms_mux s) c)" p]
    by (simp add: chan_inv_def passed_def in_flight_def)
  with assms True show ?thesis by (auto simp: chan_inv_def passed_def)
next
  case False
  then have "passed c (s\<lparr>ms_loop := l\<rparr>) = passed c s"
    using assms(2,3) by (simp add: passed_def in_flight_def)
  with assms(1) show ?thesis by (simp add: chan_inv_def)
qed

lemma chan_inv_same:
  assumes "chan_inv c s" "passed c t = passed c s" "ms_recv t = ms_recv s"
    and "ep_closed (mx_ep (ms_mux s) c) \<Longrightarrow> ep_closed (mx_ep (ms_mux t) c)" "mx_closed (ms_mux s) \<Longrightarrow> mx_closed (ms_mux t)"
    and "length (ep_packets (mx_ep (ms_mux t) c)) \<le> endpointQueue"
  shows "chan_inv c t"
  using assms by (auto simp: chan_inv_def)

lemma chan_inv_step:
  assumes "mux_step s t" "chan_inv c s"
  shows "chan_inv c t"
  using assms
proof (cases rule: mux_step.cases)
  case (read p)
  then show ?thesis using assms(2) chan_inv_read by simp
next
  case conn_fails
  then show ?thesis using assms(2) by (auto intro!: chan_inv_same [OF assms(2)] simp: passed_def in_flight_def chan_inv_def)
next
  case read_error
  then show ?thesis using assms(2) by (auto intro!: chan_inv_same [OF assms(2)] simp: passed_def in_flight_def chan_inv_def)
next
  case (send d p e)
  then show ?thesis using assms(2)
    by (auto intro!: chan_inv_same [OF assms(2)] simp: passed_def in_flight_def ep_send_def chan_inv_def)
next
  case (endpoint_closed d p)
  then show ?thesis using assms(2) chan_inv_drop [of c s d p L_read] by (simp add: in_flight_def)
next
  case (mux_closed d p)
  then show ?thesis using assms(2) chan_inv_drop [of c s d p L_done] by (simp add: in_flight_def)
next
  case loop_closed
  then show ?thesis using assms(2) by (auto intro!: chan_inv_same [OF assms(2)] simp: passed_def in_flight_def chan_inv_def)
next
  case close_next
  then show ?thesis using assms(2)
    by (auto intro!: chan_inv_same [OF assms(2)] simp: passed_def mux_close_next_ep chan_inv_def)
next
  case (close_endpoint d)
  then show ?thesis using assms(2)
    by (auto intro!: chan_inv_same [OF assms(2)] simp: passed_def ep_Close_def chan_inv_def)
next
  case (take_packet n d r e p)
  then show ?thesis using assms(2) ep_ReadFrom_packet [OF take_packet(2)]
    by (auto intro!: chan_inv_same [OF assms(2)] simp: passed_def chan_inv_def)
qed

lemma close_inv_next: "close_inv m \<Longrightarrow> close_inv (mux_close_next m)"
  by (auto simp: close_inv_def mux_close_next_def ep_Close_def)

lemma close_inv_set:
  "close_inv m \<Longrightarrow> (ep_closed (mx_ep m c) \<Longrightarrow> ep_closed e) \<Longrightarrow> close_inv (mx_set c e m)"
  by (cases c) (auto simp: close_inv_def)

lemma close_inv_step: "close_inv (ms_mux s) \<Longrightarrow> mux_step s t \<Longrightarrow> close_inv (ms_mux t)"
  by (erule mux_step.cases)
     (auto simp: loop_received_def close_inv_next ep_Close_def dest: ep_ReadFrom_packet intro!: close_inv_set)

interpretation mux: safe_system mux_init mux_step mux_inv
proof
  show "mux_init s \<Longrightarrow> mux_inv s" for s
    by (auto simp: mux_init_def mux_inv_def close_inv_def chan_inv_def newPacketMux_def newEndpoint_def passed_def
        in_flight_def routed_def) (case_tac c; simp add: newEndpoint_def)+
  show "mux_inv s \<Longrightarrow> mux_step s t \<Longrightarrow> mux_inv t" for s t
    by (auto simp: mux_inv_def intro: chan_inv_step close_inv_step)
qed

lemma close_inv_done: "close_inv m \<Longrightarrow> mx_once m = 5 \<Longrightarrow> ep_closed (mx_ep m c)"
  by (cases c) (auto simp: close_inv_def)

text \<open>Once \<open>Close\<close> has run, the loop returns whatever it was doing.\<close>

lemma loop_stops:
  assumes "mx_once (ms_mux s) = 5" "mx_closed (ms_mux s)" "mx_connClosed (ms_mux s)"
  shows "mux_step\<^sup>*\<^sup>* s (s\<lparr>ms_loop := L_done\<rparr>)"
proof -
  have fin: "mux_step (s\<lparr>ms_loop := L_close\<rparr>) (s\<lparr>ms_loop := L_done\<rparr>)"
    using mux_step.loop_closed [of "s\<lparr>ms_loop := L_close\<rparr>"] assms by simp
  show ?thesis
  proof (cases "ms_loop s")
    case L_read
    then have "mux_step s (s\<lparr>ms_loop := L_close\<rparr>)" using assms(3) by (intro mux_step.read_error) auto
    with fin show ?thesis by (meson r_into_rtranclp rtranclp_trans)
  next
    case (L_send c p)
    then show ?thesis using assms mux_step.mux_closed by blast
  next
    case L_close
    then show ?thesis using assms mux_step.loop_closed by blast
  next
    case L_done
    then show ?thesis by (metis mux_sys.surjective mux_sys.update_convs(2) rtranclp.rtrancl_refl)
  qed
qed

lemma unat_byte: "n < 256 \<Longrightarrow> unat (of_nat n :: u8) = n"
  by (simp add: unat_of_nat)

section \<open>A concrete run\<close>

text \<open>One DTLS and one RTP datagram are read, the RTP one is taken, the multiplexer is closed.\<close>

definition demo_packet :: "u8 \<Rightarrow> packet" where
  "demo_packet b = \<lparr>pk_b = [b, 111], pk_addr = ''meta''\<rparr>"

definition demo_sys :: mux_sys where
  "demo_sys = \<lparr>ms_mux = newPacketMux, ms_loop = L_read, ms_failed = False, ms_recv = [], ms_out = (\<lambda>_. [])\<rparr>"

definition demo_sent :: mux_sys where
  "demo_sent = loop_received (demo_packet 128) demo_sys"

definition demo_closed :: mux_sys where
  "demo_closed = demo_sent\<lparr>ms_mux := mux_Close (ms_mux demo_sent)\<rparr>"

lemma demo_sent_reach: "reach mux_init mux_step demo_sent"
proof -
  have "reach mux_init mux_step demo_sys"
    by (rule reach_init) (simp add: mux_init_def demo_sys_def)
  moreover have "mux_step demo_sys demo_sent"
    unfolding demo_sent_def by (rule mux_step.read) (simp_all add: demo_sys_def demo_packet_def)
  ultimately show ?thesis by (rule reach_step)
qed

lemma close_steps: "mux_step\<^sup>*\<^sup>* s (s\<lparr>ms_mux := (mux_close_next ^^ k) (ms_mux s)\<rparr>)"
proof (induction k)
  case (Suc k)
  have "mux_step (s\<lparr>ms_mux := (mux_close_next ^^ k) (ms_mux s)\<rparr>) (s\<lparr>ms_mux := (mux_close_next ^^ Suc k) (ms_mux s)\<rparr>)"
    using mux_step.close_next [of "s\<lparr>ms_mux := (mux_close_next ^^ k) (ms_mux s)\<rparr>"] by simp
  with Suc.IH show ?case by (rule rtranclp.rtrancl_into_rtrancl)
qed simp

lemma demo_closed_reach: "reach mux_init mux_step demo_closed"
  unfolding demo_closed_def mux_Close_def by (rule reach_steps [OF close_steps demo_sent_reach])

section \<open>Properties\<close>

text \<open>
  C6: The multiplexer neither misroutes, duplicates nor reorders: under every interleaving of
  the read loop, the readers and closing, what has passed through an endpoint (taken by its
  reader, queued, or held by the loop) is a subsequence of the datagrams of its class in the
  order they were read, and exactly that sequence while neither the endpoint nor the
  multiplexer is closed; no queue exceeds its 128 packets.
\<close>

theorem mux_delivers_in_order:
  assumes "reach mux_init mux_step s"
  shows "subseq (ms_out s c @ ep_packets (mx_ep (ms_mux s) c) @ in_flight c (ms_loop s)) (routed c (ms_recv s)) \<and>
    (\<not> ep_closed (mx_ep (ms_mux s) c) \<and> \<not> mx_closed (ms_mux s) \<longrightarrow>
       ms_out s c @ ep_packets (mx_ep (ms_mux s) c) @ in_flight c (ms_loop s) = routed c (ms_recv s)) \<and>
    length (ep_packets (mx_ep (ms_mux s) c)) \<le> 128"
  using mux.reach_inv [OF assms] by (simp add: mux_inv_def chan_inv_def passed_def endpointQueue_def)

theorem mux_delivers_in_order_witness:
  "in_flight Ch_srtp (ms_loop demo_sent) = [demo_packet 128] \<and>
   ms_out demo_sent Ch_srtp @ ep_packets (mx_ep (ms_mux demo_sent) Ch_srtp) @ in_flight Ch_srtp (ms_loop demo_sent) =
     routed Ch_srtp (ms_recv demo_sent)"
proof -
  have "\<not> ep_closed (mx_ep (ms_mux demo_sent) Ch_srtp)" "\<not> mx_closed (ms_mux demo_sent)"
      "in_flight Ch_srtp (ms_loop demo_sent) = [demo_packet 128]"
    by code_simp+
  with mux_delivers_in_order [OF demo_sent_reach, of Ch_srtp] show ?thesis by blast
qed

text \<open>
  C34: After \<open>Close\<close> has run, in any interleaving: the read loop returns although no further
  datagram arrives and the connection has not failed by itself, every endpoint is closed, its reader can always get \<open>io.EOF\<close> instead of
  blocking, a write fails with \<open>io.EOF\<close>, and closing again changes nothing.
\<close>

theorem mux_close_final:
  assumes "reach mux_init mux_step s" "mx_once (ms_mux s) = 5"
  shows "mux_step\<^sup>*\<^sup>* s (s\<lparr>ms_loop := L_done\<rparr>) \<and>
    ep_ReadFrom True n (mx_ep (ms_mux s) c) = Some (Inl ErrEOF, mx_ep (ms_mux s) c) \<and>
    ep_ReadFrom f n (mx_ep (ms_mux s) c) \<noteq> None \<and>
    ep_WriteTo w b (mx_ep (ms_mux s) c) = Inl ErrEOF \<and> mux_Close (ms_mux s) = ms_mux s"
proof -
  have inv: "close_inv (ms_mux s)" using mux.reach_inv [OF assms(1)] by (simp add: mux_inv_def)
  then have "ep_closed (mx_ep (ms_mux s) c)" using assms(2) by (rule close_inv_done)
  moreover have "mx_closed (ms_mux s)" "mx_connClosed (ms_mux s)" using inv assms(2) by (simp_all add: close_inv_def)
  ultimately show ?thesis
    using loop_stops [OF assms(2)] mux_once.shut_again [of "ms_mux s"] assms(2)
    by (auto simp: ep_ReadFrom_def ep_WriteTo_def split: list.splits)
qed

theorem mux_close_final_witness:
  "mux_step\<^sup>*\<^sup>* demo_closed (demo_closed\<lparr>ms_loop := L_done\<rparr>) \<and>
   ep_WriteTo (\<lambda>b. Inr (length b)) [1] (mx_ep (ms_mux demo_closed) Ch_dtls) = Inl ErrEOF"
proof -
  have "mx_once (ms_mux demo_closed) = 5" by code_simp
  with mux_close_final [OF demo_closed_reach] show ?thesis by blast
qed

text \<open>
  The classification is exact on RTP: a version 2 RTP packet with payload type \<open>pt\<close> goes
  to the SRTP endpoint unless its marker bit is set and \<open>pt\<close> lies in 64..95 (the range that
  RFC 5761 reserves, since the second byte then looks like an RTCP packet type), an RTCP
  packet (types 192..223) always goes to the SRTCP endpoint, and a DTLS record (first byte
  20..63) never to either.
\<close>

lemma classify_exact:
  "classify (of_nat (128 + i mod 64) # of_nat ((if marker then 128 else 0) + pt mod 128) # rest) =
     (if marker \<and> 64 \<le> pt mod 128 \<and> pt mod 128 \<le> 95 then Some Ch_srtcp else Some Ch_srtp) \<and>
   classify (of_nat (128 + i mod 64) # of_nat (192 + j mod 32) # rest) = Some Ch_srtcp \<and>
   classify (of_nat (20 + i mod 44) # rest) = Some Ch_dtls"
proof -
  have "i mod 64 < 64" "pt mod 128 < 128" "j mod 32 < 32" "i mod 44 < 44" by simp_all
  moreover from this have "i mod 64 \<le> 63" "\<not> 192 \<le> pt mod 128" "j mod 32 \<le> 31" "i mod 44 \<le> 43" by linarith+
  ultimately show ?thesis
    by (simp add: classify_def word_le_nat_alt unat_byte del: of_nat_add of_nat_numeral)
qed

end
