(* ===== verification/SdpText.thy ===== *)
theory SdpText
  imports Sdp
begin

text \<open>
  The text of a session description. \<open>sdp_read\<close> is a reader for the part of the SDP grammar
  (RFC 8866) that audio descriptions use: lines ending in CRLF, the session part \<open>v=\<close>, \<open>o=\<close>,
  \<open>s=\<close>, \<open>t=\<close>, session attributes, and media sections of \<open>m=\<close>, \<open>c=\<close> and attributes. It is the
  reference for the third-party parser that the code calls: that parser is only assumed to
  agree with it on the texts it accepts. The descriptions built by \<open>internal/media/sdp.go\<close> are
  shown to be such texts, and to be read back completely.
\<close>

section \<open>A reader for session descriptions\<close>














section \<open>Reading back what was written\<close>


















section \<open>A concrete exchange\<close>





section \<open>Properties\<close>



end
