(* ===== verification/Rtp.thy ===== *)
theory Rtp
  imports Prelude
begin

text \<open>
  The RTP and RTCP packets the connector handles: the fields of the packet structures that
  the code reads or writes, and lemmas about 16-bit sequence numbers and 32-bit extended
  sequence numbers read as residues of an unbounded (true) sequence number.
\<close>

record rtp_packet =
  p_payloadType :: u8
  p_sequenceNumber :: u16
  p_timestamp :: u32
  p_ssrc :: u32
  p_extension :: bool
  p_extensionProfile :: u16
  p_extensions :: "(u8 \<times> u8 list) list"
  p_payload :: "u8 list"

text \<open>A packet for concrete examples.\<close>

definition sample_packet :: "u32 \<Rightarrow> u16 \<Rightarrow> u32 \<Rightarrow> rtp_packet" where
  "sample_packet x q ts = \<lparr>p_payloadType = 111, p_sequenceNumber = q, p_timestamp = ts, p_ssrc = x,
     p_extension = False, p_extensionProfile = 0, p_extensions = [], p_payload = []\<rparr>"

section \<open>Sequence numbers as residues\<close>

lemma uint_u16_of_int: "uint (word_of_int e :: u16) = e mod 65536"
  by (simp add: uint_word_of_int)

lemma uint_u32_of_int: "uint (word_of_int e :: u32) = e mod 4294967296"
  by (simp add: uint_word_of_int)

lemma seq_diff: "(word_of_int e :: u16) - word_of_int m = word_of_int (e - m)"
  by simp

text \<open>The forward test of RFC 3550: the 16-bit difference is below 0x8000 exactly when the
  true number is at or after the reference, inside the half window.\<close>

lemma seq_forward_iff:
  assumes "- 32768 \<le> e - m" "e - m < 32768"
  shows "(word_of_int e :: u16) - word_of_int m < 0x8000 \<longleftrightarrow> m \<le> e"
proof -
  have "uint (word_of_int (e - m) :: u16) = (e - m) mod 65536"
    by (rule uint_u16_of_int)
  also have "\<dots> = (if m \<le> e then e - m else e - m + 65536)"
  proof (cases "m \<le> e")
    case False
    have "(e - m) mod 65536 = (e - m + 65536) mod 65536" by simp
    also have "\<dots> = e - m + 65536" using False assms by (intro mod_pos_pos_trivial) linarith+
    finally show ?thesis using False by simp
  qed (use assms in simp)
  finally have "uint (word_of_int (e - m) :: u16) < 32768 \<longleftrightarrow> m \<le> e"
    using assms by auto
  then show ?thesis by (simp add: word_less_def)
qed

text \<open>Within the half window, the 16-bit values decrease exactly on a wrap.\<close>

lemma seq_wrap_iff:
  assumes "m \<le> e" "e - m < 32768"
  shows "(word_of_int e :: u16) < word_of_int m \<longleftrightarrow> e div 65536 = m div 65536 + 1"
    and "\<not> (word_of_int e :: u16) < word_of_int m \<longleftrightarrow> e div 65536 = m div 65536"
proof -
  define q r q' r' where "q = e div 65536" and "r = e mod 65536"
    and "q' = m div 65536" and "r' = m mod 65536"
  have e: "e = 65536 * q + r" and m: "m = 65536 * q' + r'"
    and "0 \<le> r" "r < 65536" "0 \<le> r'" "r' < 65536"
    by (simp_all add: q_def r_def q'_def r'_def)
  with assms have "q = q' \<and> r' \<le> r \<or> q = q' + 1 \<and> r < r'" by linarith
  then have *: "e mod 65536 < m mod 65536 \<longleftrightarrow> e div 65536 = m div 65536 + 1"
    and **: "\<not> e mod 65536 < m mod 65536 \<longleftrightarrow> e div 65536 = m div 65536"
    unfolding q_def r_def q'_def r'_def by auto
  from * show "(word_of_int e :: u16) < word_of_int m \<longleftrightarrow> e div 65536 = m div 65536 + 1"
    by (simp add: word_less_def uint_u16_of_int)
  from ** show "\<not> (word_of_int e :: u16) < word_of_int m \<longleftrightarrow> e div 65536 = m div 65536"
    by (simp add: word_less_def uint_u16_of_int)
qed

lemma ucast_seq: "(ucast (word_of_int e :: u16) :: u32) = word_of_int (e mod 65536)"
proof -
  have "(ucast (word_of_int e :: u16) :: u32) = word_of_int (uint (word_of_int e :: u16))"
    by simp
  then show ?thesis by (simp only: uint_u16_of_int)
qed

text \<open>Cycle count plus sequence number is the extended sequence number.\<close>

lemma cycles_plus_seq:
  "word_of_int (65536 * (m div 65536)) + (ucast (word_of_int m :: u16) :: u32) = word_of_int m"
proof -
  have "word_of_int (65536 * (m div 65536)) + (word_of_int (m mod 65536) :: u32) =
      word_of_int (65536 * (m div 65536) + m mod 65536)"
    by (simp only: wi_hom_add)
  then show ?thesis by (simp only: ucast_seq mult_div_mod_eq)
qed

end
