(* ===== verification/GoFloat.thy ===== *)
theory GoFloat
  imports GoStrings "HOL-Library.Log_Nat"
begin

text \<open>
  Go's \<open>float64\<close> arithmetic as it occurs in the media statistics and in
  \<open>time.ParseDuration\<close>: every operation is the exact rational result rounded to the
  nearest representable value (ties to even), subnormal numbers included. Infinities and
  NaN do not arise: every operand is a finite clock difference, counter or timestamp.
  Also \<open>Duration.Seconds\<close>, the conversion to \<open>uint32\<close> and \<open>time.ParseDuration\<close>.
\<close>

section \<open>Rounding to float64\<close>

definition pow2 :: "int \<Rightarrow> rat" where
  "pow2 e = (if 0 \<le> e then 2 ^ nat e else 1 / 2 ^ nat (- e))"

text \<open>Round to the nearest integer, ties to even.\<close>

definition round_even :: "rat \<Rightarrow> int" where
  "round_even y =
     (let f = \<lfloor>y\<rfloor>; d = y - of_int f
      in if d < 1/2 then f else if 1/2 < d then f + 1 else if even f then f else f + 1)"

text \<open>The exponent of the last place of a 53-bit significand: \<open>2^52 \<le> |x| / 2^e < 2^53\<close>
  for normal numbers, and not below that of the least subnormal, -1074.\<close>

definition ulp_exp :: "rat \<Rightarrow> int" where
  "ulp_exp x =
     (case quotient_of \<bar>x\<bar> of
        (a, b) \<Rightarrow>
          (let e = bitlen a - bitlen b - 53
           in max (- 1074) (if pow2 53 \<le> \<bar>x\<bar> / pow2 e then e + 1 else e)))"

definition fl64 :: "rat \<Rightarrow> rat" where
  "fl64 x = (if x = 0 then 0 else of_int (round_even (x / pow2 (ulp_exp x))) * pow2 (ulp_exp x))"

lemma pow2_pos [simp]: "0 < pow2 e"
  by (simp add: pow2_def)

lemma round_even_of_int [simp]: "round_even (of_int i) = i"
  by (simp add: round_even_def)

lemma round_even_error: "\<bar>of_int (round_even y) - y\<bar> \<le> 1/2"
proof -
  have "of_int \<lfloor>y\<rfloor> \<le> y" "y < of_int \<lfloor>y\<rfloor> + 1" by linarith+
  then show ?thesis unfolding round_even_def Let_def by (auto simp: abs_le_iff)
qed

lemma round_even_nonneg: "0 \<le> y \<Longrightarrow> 0 \<le> round_even y"
  by (auto simp: round_even_def Let_def)

lemma round_even_nonpos: "y \<le> 0 \<Longrightarrow> round_even y \<le> 0"
proof -
  assume "y \<le> 0"
  moreover have "\<bar>of_int (round_even y) - y\<bar> \<le> 1/2" by (rule round_even_error)
  ultimately have "of_int (round_even y) \<le> (1/2 :: rat)" by linarith
  then show ?thesis by linarith
qed

lemma round_even_small: "\<bar>y\<bar> \<le> 1/2 \<Longrightarrow> round_even y = 0"
proof -
  assume y: "\<bar>y\<bar> \<le> 1/2"
  show ?thesis
  proof (cases "0 \<le> y")
    case True
    with y have "\<lfloor>y\<rfloor> = 0" by linarith
    with y True show ?thesis by (simp add: round_even_def Let_def)
  next
    case False
    with y have "\<lfloor>y\<rfloor> = - 1" by linarith
    with y False show ?thesis by (simp add: round_even_def Let_def)
  qed
qed

text \<open>Rounding never more than doubles the magnitude and never changes the sign.\<close>

lemma round_even_double: "\<bar>of_int (round_even y)\<bar> \<le> 2 * \<bar>y :: rat\<bar>"
proof (cases "\<bar>y\<bar> \<le> 1/2")
  case True
  then show ?thesis by (simp add: round_even_small)
next
  case False
  with round_even_error [of y] show ?thesis by linarith
qed

lemma fl64_zero [simp]: "fl64 0 = 0"
  by (simp add: fl64_def)

lemma pow2_nonneg [simp]: "0 \<le> pow2 e"
  using pow2_pos by (rule less_imp_le)

lemma pow2_nonzero [simp]: "pow2 e \<noteq> 0"
  using pow2_pos [of e] by (auto simp del: pow2_pos)

lemma fl64_nonneg: "0 \<le> x \<Longrightarrow> 0 \<le> fl64 x"
  by (simp add: fl64_def round_even_nonneg)

lemma fl64_nonpos: "x \<le> 0 \<Longrightarrow> fl64 x \<le> 0"
  by (auto simp: fl64_def mult_le_0_iff round_even_nonpos divide_nonpos_pos less_imp_le)

lemma fl64_double: "\<bar>fl64 x\<bar> \<le> 2 * \<bar>x\<bar>"
proof (cases "x = 0")
  case False
  let ?p = "pow2 (ulp_exp x)"
  have "\<bar>fl64 x\<bar> = \<bar>of_int (round_even (x / ?p))\<bar> * ?p"
    using False by (simp add: fl64_def abs_mult less_imp_le)
  also have "\<dots> \<le> 2 * \<bar>x / ?p\<bar> * ?p"
    by (intro mult_right_mono round_even_double) (simp add: less_imp_le)
  also have "\<dots> = 2 * \<bar>x\<bar>"
    by (simp add: abs_divide)
  finally show ?thesis .
qed simp

section \<open>Conversions\<close>

text \<open>Truncation towards zero, as in a conversion from float to an integer type, and the
  conversion to \<open>uint32\<close> (through a 64-bit integer, keeping the low 32 bits).\<close>

definition go_trunc :: "rat \<Rightarrow> int" where
  "go_trunc x = (if 0 \<le> x then \<lfloor>x\<rfloor> else \<lceil>x\<rceil>)"

definition u32_of_float :: "rat \<Rightarrow> u32" where
  "u32_of_float x = word_of_int (go_trunc x)"

lemma go_trunc_of_int [simp]: "go_trunc (of_int i) = i"
  by (simp add: go_trunc_def)

lemma unat_u32_of_float:
  "0 \<le> x \<Longrightarrow> x < 4294967296 \<Longrightarrow> int (unat (u32_of_float x)) = \<lfloor>x\<rfloor>"
  by (simp add: u32_of_float_def go_trunc_def uint_nat [symmetric] uint_word_of_int mod_pos_pos_trivial floor_less_iff)

text \<open>\<open>Duration.Seconds\<close>: whole seconds plus the fraction.\<close>

definition seconds :: "duration \<Rightarrow> rat" where
  "seconds d = fl64 (fl64 (of_int (go_quot d second)) + fl64 (of_int (go_rem d second) / 1000000000))"

lemma seconds_zero [simp]: "seconds 0 = 0"
  by (simp add: seconds_def)

lemma seconds_nonneg: "0 \<le> d \<Longrightarrow> 0 \<le> seconds d"
  unfolding seconds_def by (intro fl64_nonneg add_nonneg_nonneg) auto

section \<open>time.ParseDuration\<close>

definition dur_char :: "char \<Rightarrow> bool" where
  "dur_char c \<longleftrightarrow> c = CHR ''.'' \<or> is_digit c"

text \<open>\<open>unitMap\<close>; the micro sign is U+00B5 or U+03BC in UTF-8.\<close>

definition unit_map :: "string \<Rightarrow> int option" where
  "unit_map u =
     (if u = ''ns'' then Some 1
      else if u = ''us'' \<or> u = [char_of (194::nat), char_of (181::nat), CHR ''s'']
              \<or> u = [char_of (206::nat), char_of (188::nat), CHR ''s''] then Some 1000
      else if u = ''ms'' then Some 1000000
      else if u = ''s'' then Some 1000000000
      else if u = ''m'' then Some 60000000000
      else if u = ''h'' then Some 3600000000000
      else None)"

text \<open>\<open>leadingFraction\<close>: digits beyond the int64 range are dropped.\<close>

fun leading_fraction :: "string \<Rightarrow> int \<Rightarrow> rat \<Rightarrow> int \<times> rat" where
  "leading_fraction [] x scale = (x, scale)"
| "leading_fraction (c # cs) x scale =
     (let y = 10 * x + (of_char c - 48)
      in if 922337203685477580 < x \<or> 9223372036854775808 < y then (x, scale)
         else leading_fraction cs y (scale * 10))"

function dur_loop :: "int \<Rightarrow> string \<Rightarrow> int option" where
  "dur_loop d s =
     (if s = [] then Some d
      else if \<not> dur_char (hd s) then None
      else
        let ds = takeWhile is_digit s; v = digits_value ds; s1 = dropWhile is_digit s;
            dot = (take 1 s1 = ''.'');
            fs = (if dot then takeWhile is_digit (drop 1 s1) else []);
            s2 = (if dot then dropWhile is_digit (drop 1 s1) else s1);
            u = takeWhile (\<lambda>c. \<not> dur_char c) s2
        in if 9223372036854775808 < v \<or> (ds = [] \<and> fs = []) \<or> u = [] then None
           else case unit_map u of
             None \<Rightarrow> None
           | Some unit \<Rightarrow>
               if 9223372036854775808 div unit < v then None
               else
                 let fr = leading_fraction fs 0 1;
                     w = v * unit +
                       (if 0 < fst fr
                        then go_trunc (fl64 (fl64 (of_int (fst fr)) * fl64 (of_int unit / snd fr)))
                        else 0)
                 in if 9223372036854775808 < w \<or> 9223372036854775808 < d + w then None
                    else dur_loop (d + w) (dropWhile (\<lambda>c. \<not> dur_char c) s2))"
  by pat_completeness auto

lemma dropWhile_shorter: "takeWhile P s \<noteq> [] \<Longrightarrow> length (dropWhile P s) < length s"
  by (cases s) (auto simp: less_Suc_eq_le length_dropWhile_le split: if_splits)

lemma length_drop_digits: "length (dropWhile P (drop k s)) \<le> length s"
  by (rule order_trans [OF length_dropWhile_le]) simp

termination dur_loop
proof (relation "measure (length \<circ> snd)", goal_cases)
  case 1
  show ?case by simp
next
  case (2 d s ds v s1 dot fs s2 u unit fr w)
  have "length (dropWhile is_digit (drop 1 s1)) \<le> length s"
    unfolding "2"(5) by (rule order_trans [OF length_drop_digits length_dropWhile_le])
  then have "length s2 \<le> length s"
    unfolding "2"(8) by (simp add: "2"(5) length_dropWhile_le)
  moreover have "length (dropWhile (\<lambda>c. \<not> dur_char c) s2) < length s2"
    using "2"(9,10) by (intro dropWhile_shorter) simp
  ultimately show ?case by simp
qed

declare dur_loop.simps [simp del]

definition parse_duration :: "string \<Rightarrow> duration option" where
  "parse_duration s =
     (let neg = (take 1 s = ''-'');
          t = (if neg \<or> take 1 s = ''+'' then drop 1 s else s)
      in if t = ''0'' then Some 0
         else if t = [] then None
         else case dur_loop 0 t of
           None \<Rightarrow> None
         | Some d \<Rightarrow>
             if neg then Some (- d)
             else if 9223372036854775807 < d then None else Some d)"

end
