(* ===== verification/RtpStats.thy ===== *)
theory RtpStats
  imports Rtp GoFloat
begin

text \<open>
  \<open>internal/media/rtpstats.go\<close>: reception statistics of one RTP source (\<open>rxStats\<close>: the
  extended highest sequence number, loss, interarrival jitter), the reception report block,
  transmission statistics (\<open>txStats\<close>) and the sender report. Every method runs under the
  structure's mutex, so each is one state transformer. The abstract specification
  \<open>src_spec\<close> counts with unbounded integers; \<open>rx_run_refines\<close> shows that the 16- and
  32-bit counters of the code track it through every wrap-around.
\<close>

section \<open>Reception statistics\<close>

definition opusClockRate :: rat where "opusClockRate = 48000"

record rxStats =
  rx_started :: bool
  rx_ssrc :: u32
  rx_baseSeq :: u32
  rx_maxSeq :: u16
  rx_cycles :: u32
  rx_received :: u32
  rx_reorder :: u64
  rx_expectedPrior :: u32
  rx_receivedPrior :: u32
  rx_epoch :: go_time
  rx_haveTransit :: bool
  rx_transit :: rat
  rx_jitter :: rat
  rx_lastSR :: u32
  rx_lastSRAt :: go_time

definition rx_zero :: rxStats where
  "rx_zero = \<lparr>rx_started = False, rx_ssrc = 0, rx_baseSeq = 0, rx_maxSeq = 0, rx_cycles = 0,
     rx_received = 0, rx_reorder = 0, rx_expectedPrior = 0, rx_receivedPrior = 0, rx_epoch = 0,
     rx_haveTransit = False, rx_transit = 0, rx_jitter = 0, rx_lastSR = 0, rx_lastSRAt = 0\<rparr>"

text \<open>\<open>rxStats.update\<close>: first the sequence number bookkeeping (a new source restarts every
  counter but keeps the last sender report), then the interarrival jitter.\<close>

definition rx_sequence :: "rtp_packet \<Rightarrow> go_time \<Rightarrow> rxStats \<Rightarrow> rxStats" where
  "rx_sequence p tm s =
     (if \<not> rx_started s \<or> p_ssrc p \<noteq> rx_ssrc s then
        s\<lparr>rx_started := True, rx_ssrc := p_ssrc p, rx_baseSeq := ucast (p_sequenceNumber p),
          rx_maxSeq := p_sequenceNumber p, rx_cycles := 0, rx_received := 0, rx_reorder := 0,
          rx_expectedPrior := 0, rx_receivedPrior := 0, rx_epoch := tm,
          rx_haveTransit := False, rx_transit := 0, rx_jitter := 0\<rparr>
      else if p_sequenceNumber p - rx_maxSeq s < 0x8000 then
        s\<lparr>rx_cycles := (if p_sequenceNumber p < rx_maxSeq s then rx_cycles s + 0x10000 else rx_cycles s),
          rx_maxSeq := p_sequenceNumber p\<rparr>
      else s\<lparr>rx_reorder := rx_reorder s + 1\<rparr>)"

definition rx_interarrival :: "rtp_packet \<Rightarrow> go_time \<Rightarrow> rxStats \<Rightarrow> rxStats" where
  "rx_interarrival p tm s =
     (let arrival = fl64 (seconds (time_sub tm (rx_epoch s)) * opusClockRate);
          transit = fl64 (arrival - of_int (uint (p_timestamp p)));
          d = \<bar>fl64 (transit - rx_transit s)\<bar>
      in s\<lparr>rx_jitter := (if rx_haveTransit s
             then fl64 (rx_jitter s + fl64 (fl64 (d - rx_jitter s) / 16)) else rx_jitter s),
           rx_transit := transit, rx_haveTransit := True\<rparr>)"

definition rx_update :: "rtp_packet \<Rightarrow> go_time \<Rightarrow> rxStats \<Rightarrow> rxStats" where
  "rx_update p tm s =
     (let s1 = rx_sequence p tm s
      in rx_interarrival p tm (s1\<lparr>rx_received := rx_received s1 + 1\<rparr>))"

definition rx_noteSenderReport :: "u64 \<Rightarrow> go_time \<Rightarrow> rxStats \<Rightarrow> rxStats" where
  "rx_noteSenderReport ntp tm s = s\<lparr>rx_lastSR := ucast (drop_bit 16 ntp), rx_lastSRAt := tm\<rparr>"

text \<open>\<open>cycles + uint32(maxSeq) - baseSeq + 1\<close>, modulo \<open>2^32\<close>.\<close>

definition rx_extMax :: "rxStats \<Rightarrow> u32" where
  "rx_extMax s = rx_cycles s + ucast (rx_maxSeq s)"

definition rx_expected :: "rxStats \<Rightarrow> u32" where
  "rx_expected s = rx_extMax s - rx_baseSeq s + 1"

record rxSnapshot =
  sn_received :: u32
  sn_lost :: int
  sn_reordered :: u64
  sn_jitterMs :: rat

definition rx_snapshot :: "rxStats \<Rightarrow> rxSnapshot" where
  "rx_snapshot s =
     (if \<not> rx_started s then \<lparr>sn_received = 0, sn_lost = 0, sn_reordered = 0, sn_jitterMs = 0\<rparr>
      else \<lparr>sn_received = rx_received s,
            sn_lost = uint (rx_expected s) - uint (rx_received s),
            sn_reordered = rx_reorder s,
            sn_jitterMs = fl64 (fl64 (rx_jitter s / opusClockRate) * 1000)\<rparr>)"

record receptionReport =
  rr_ssrc :: u32
  rr_fractionLost :: u8
  rr_totalLost :: u32
  rr_lastSequenceNumber :: u32
  rr_jitter :: u32
  rr_lastSenderReport :: u32
  rr_delay :: u32

text \<open>\<open>rxStats.report\<close>: the block for the interval since the previous report, and the
  state with the interval restarted.\<close>

definition rx_fraction :: "u32 \<Rightarrow> u32 \<Rightarrow> u8" where
  "rx_fraction expInterval recInterval =
     (let lostInterval = uint expInterval - uint recInterval
      in if 0 < uint expInterval \<and> 0 < lostInterval
         then word_of_int (go_quot (lostInterval * 256) (uint expInterval)) else 0)"

definition rx_report :: "go_time \<Rightarrow> rxStats \<Rightarrow> receptionReport option \<times> rxStats" where
  "rx_report now s =
     (if \<not> rx_started s then (None, s)
      else
        let expected = rx_expected s;
            lost = uint expected - uint (rx_received s);
            fraction = rx_fraction (expected - rx_expectedPrior s) (rx_received s - rx_receivedPrior s);
            lost1 = (if lost < 0 then 0 else lost);
            lost2 = (if 0xffffff < lost1 then 0xffffff else lost1);
            dlsr = (if rx_lastSR s \<noteq> 0
                    then u32_of_float (fl64 (seconds (time_sub now (rx_lastSRAt s)) * 65536)) else 0)
        in (Some \<lparr>rr_ssrc = rx_ssrc s, rr_fractionLost = fraction, rr_totalLost = word_of_int lost2,
                  rr_lastSequenceNumber = rx_extMax s, rr_jitter = u32_of_float (rx_jitter s),
                  rr_lastSenderReport = rx_lastSR s, rr_delay = dlsr\<rparr>,
            s\<lparr>rx_expectedPrior := expected, rx_receivedPrior := rx_received s\<rparr>))"

section \<open>Transmission statistics\<close>

record txStats =
  tx_ssrc :: u32
  tx_packets :: u32
  tx_octets :: u32
  tx_lastTS :: u32
  tx_lastAt :: go_time
  tx_hasSent :: bool

definition tx_zero :: txStats where
  "tx_zero = \<lparr>tx_ssrc = 0, tx_packets = 0, tx_octets = 0, tx_lastTS = 0, tx_lastAt = 0, tx_hasSent = False\<rparr>"

definition tx_sent :: "rtp_packet \<Rightarrow> go_time \<Rightarrow> txStats \<Rightarrow> txStats" where
  "tx_sent p tm s = s\<lparr>tx_ssrc := p_ssrc p, tx_lastTS := p_timestamp p, tx_lastAt := tm, tx_hasSent := True,
     tx_packets := tx_packets s + 1, tx_octets := tx_octets s + of_nat (length (p_payload p))\<rparr>"

definition ntpEpochOffset :: int where "ntpEpochOffset = 2208988800"

text \<open>\<open>Time.Unix\<close> and \<open>Time.Nanosecond\<close> are the floor and the remainder of the clock in
  seconds.\<close>

definition ntpTime :: "go_time \<Rightarrow> u64" where
  "ntpTime t =
     (let sec = word_of_int (t div second) + word_of_int ntpEpochOffset;
          frac = word_of_int (t mod second) * 0x100000000 div 1000000000
      in push_bit 32 sec OR frac)"

record senderReport =
  sr_ssrc :: u32
  sr_ntpTime :: u64
  sr_rtpTime :: u32
  sr_packetCount :: u32
  sr_octetCount :: u32
  sr_reports :: "receptionReport list"

definition tx_senderReport :: "go_time \<Rightarrow> txStats \<Rightarrow> senderReport option" where
  "tx_senderReport now s =
     (if \<not> tx_hasSent s then None
      else
        let elapsed = seconds (time_sub now (tx_lastAt s))
        in Some \<lparr>sr_ssrc = tx_ssrc s, sr_ntpTime = ntpTime now,
                 sr_rtpTime = tx_lastTS s + u32_of_float (fl64 (elapsed * opusClockRate)),
                 sr_packetCount = tx_packets s, sr_octetCount = tx_octets s, sr_reports = []\<rparr>)"

lemmas [op_defs] = rx_sequence_def rx_interarrival_def rx_update_def rx_extMax_def rx_expected_def

section \<open>What update leaves alone\<close>

lemma rx_update_simps [simp]:
  "rx_started (rx_update p tm s)"
  "rx_ssrc (rx_update p tm s) = p_ssrc p"
  "rx_maxSeq (rx_update p tm s) = rx_maxSeq (rx_sequence p tm s)"
  "rx_cycles (rx_update p tm s) = rx_cycles (rx_sequence p tm s)"
  "rx_baseSeq (rx_update p tm s) = rx_baseSeq (rx_sequence p tm s)"
  "rx_reorder (rx_update p tm s) = rx_reorder (rx_sequence p tm s)"
  "rx_received (rx_update p tm s) = rx_received (rx_sequence p tm s) + 1"
  "rx_expectedPrior (rx_update p tm s) = rx_expectedPrior (rx_sequence p tm s)"
  "rx_receivedPrior (rx_update p tm s) = rx_receivedPrior (rx_sequence p tm s)"
  "rx_lastSR (rx_update p tm s) = rx_lastSR s"
  "rx_lastSRAt (rx_update p tm s) = rx_lastSRAt s"
  by (simp_all add: op_defs Let_def)

section \<open>The abstract source\<close>

text \<open>
  A source numbers its packets with integers that do not wrap; the packet carries the low
  16 bits. The specification keeps the first number, the highest number, how many packets
  came and how many of them were late.
\<close>

record src_spec =
  sp_base :: int
  sp_max :: int
  sp_received :: int
  sp_late :: int

definition src_first :: "int \<Rightarrow> src_spec" where
  "src_first e = \<lparr>sp_base = e, sp_max = e, sp_received = 1, sp_late = 0\<rparr>"

definition src_next :: "int \<Rightarrow> src_spec \<Rightarrow> src_spec" where
  "src_next e a = a\<lparr>sp_max := max (sp_max a) e, sp_received := sp_received a + 1,
     sp_late := sp_late a + (if e < sp_max a then 1 else 0)\<rparr>"

text \<open>The half window in which a 16-bit number determines the true one.\<close>

definition in_window :: "int \<Rightarrow> src_spec \<Rightarrow> bool" where
  "in_window e a \<longleftrightarrow> - 32768 \<le> e - sp_max a \<and> e - sp_max a < 32768"

text \<open>The simulation relation between the counters of the code and the specification.\<close>

definition rx_tracks :: "rxStats \<Rightarrow> src_spec \<Rightarrow> bool" where
  "rx_tracks s a \<longleftrightarrow> rx_started s \<and>
     rx_maxSeq s = word_of_int (sp_max a) \<and>
     rx_cycles s = word_of_int (65536 * (sp_max a div 65536)) \<and>
     rx_baseSeq s = word_of_int (sp_base a) \<and>
     rx_received s = word_of_int (sp_received a) \<and>
     rx_reorder s = word_of_int (sp_late a)"

lemma rx_tracks_first:
  assumes "\<not> rx_started s \<or> p_ssrc p \<noteq> rx_ssrc s"
  shows "rx_tracks (rx_update p tm s) (src_first (uint (p_sequenceNumber p)))"
proof -
  have "uint (p_sequenceNumber p) div 65536 = 0"
    using uint_u16 [of "p_sequenceNumber p"] by simp
  with assms show ?thesis
    by (auto simp: rx_tracks_def src_first_def rx_sequence_def)
qed

lemma rx_tracks_next:
  assumes tr: "rx_tracks s a" and ssrc: "p_ssrc p = rx_ssrc s"
    and seq: "p_sequenceNumber p = word_of_int e" and win: "in_window e a"
  shows "rx_tracks (rx_update p tm s) (src_next e a)"
proof -
  let ?m = "sp_max a"
  have fwd: "p_sequenceNumber p - rx_maxSeq s < 0x8000 \<longleftrightarrow> ?m \<le> e"
    using tr win seq_forward_iff [of e ?m] by (simp add: rx_tracks_def in_window_def seq)
  have wrap: "?m \<le> e \<Longrightarrow> (if p_sequenceNumber p < rx_maxSeq s then rx_cycles s + 0x10000 else rx_cycles s)
      = word_of_int (65536 * (e div 65536))"
    using tr win seq_wrap_iff [of ?m e]
    by (auto simp: rx_tracks_def in_window_def seq distrib_left wi_hom_syms)
  show ?thesis
  proof (cases "?m \<le> e")
    case True
    with fwd wrap tr ssrc seq show ?thesis
      by (simp add: rx_tracks_def src_next_def rx_sequence_def max_absorb2 wi_hom_syms)
  next
    case False
    with fwd tr ssrc seq show ?thesis
      by (simp add: rx_tracks_def src_next_def rx_sequence_def max_absorb1 wi_hom_syms)
  qed
qed

text \<open>A run over the packets of one source.\<close>

fun rx_run :: "(rtp_packet \<times> go_time) list \<Rightarrow> rxStats \<Rightarrow> rxStats" where
  "rx_run [] s = s"
| "rx_run ((p, tm) # ps) s = rx_run ps (rx_update p tm s)"

fun src_run :: "int list \<Rightarrow> src_spec \<Rightarrow> src_spec" where
  "src_run [] a = a"
| "src_run (e # es) a = src_run es (src_next e a)"

fun windowed :: "int list \<Rightarrow> src_spec \<Rightarrow> bool" where
  "windowed [] a = True"
| "windowed (e # es) a = (in_window e a \<and> windowed es (src_next e a))"

text \<open>The packets carry the true numbers \<open>es\<close> of source \<open>x\<close>.\<close>

definition numbered :: "u32 \<Rightarrow> (rtp_packet \<times> go_time) list \<Rightarrow> int list \<Rightarrow> bool" where
  "numbered x ps es \<longleftrightarrow>
     list_all2 (\<lambda>pa e. p_ssrc (fst pa) = x \<and> p_sequenceNumber (fst pa) = word_of_int e) ps es"

lemma rx_run_refines:
  "rx_tracks s a \<Longrightarrow> rx_ssrc s = x \<Longrightarrow> numbered x ps es \<Longrightarrow> windowed es a \<Longrightarrow>
   rx_tracks (rx_run ps s) (src_run es a)"
proof (induction ps arbitrary: s a es)
  case Nil
  then show ?case by (simp add: numbered_def)
next
  case (Cons pa ps)
  obtain p tm where pa: "pa = (p, tm)" by (cases pa)
  from Cons.prems obtain e es' where es: "es = e # es'"
    by (auto simp: numbered_def list_all2_Cons1)
  with Cons.prems pa have "p_ssrc p = x" "p_sequenceNumber p = word_of_int e"
    "numbered x ps es'" "in_window e a" "windowed es' (src_next e a)"
    by (auto simp: numbered_def)
  then show ?case
    using Cons.prems Cons.IH [of "rx_update p tm s" "src_next e a" es'] rx_tracks_next [of s a p e tm]
    by (simp add: pa es)
qed

lemma src_run_max: "sp_max (src_run es a) = fold max es (sp_max a)"
  by (induction es arbitrary: a) (simp_all add: src_next_def max.commute)

lemma src_run_base [simp]: "sp_base (src_run es a) = sp_base a"
  by (induction es arbitrary: a) (simp_all add: src_next_def)

lemma src_run_received: "sp_received (src_run es a) = sp_received a + int (length es)"
  by (induction es arbitrary: a) (simp_all add: src_next_def)

lemma rx_tracks_extMax: "rx_tracks s a \<Longrightarrow> rx_extMax s = word_of_int (sp_max a)"
  by (simp only: rx_tracks_def rx_extMax_def cycles_plus_seq)

lemma rx_tracks_expected:
  "rx_tracks s a \<Longrightarrow> rx_expected s = word_of_int (sp_max a - sp_base a + 1)"
  by (simp add: rx_expected_def rx_tracks_extMax) (simp add: rx_tracks_def wi_hom_syms)

section \<open>Reported loss\<close>

lemma fold_max_ge: "m \<le> fold max es (m :: int)"
  by (induction es arbitrary: m) (auto intro: order_trans [OF max.cobounded2])

lemma rx_run_tracks_spec:
  assumes "\<not> rx_started s \<or> p_ssrc p \<noteq> rx_ssrc s"
    and "numbered (p_ssrc p) ps es" and "windowed es (src_first (uint (p_sequenceNumber p)))"
  shows "rx_tracks (rx_run ((p, tm) # ps) s) (src_run es (src_first (uint (p_sequenceNumber p))))"
  using assms rx_run_refines [OF rx_tracks_first [of s p tm], of "p_ssrc p" ps es] by simp

text \<open>
  C4: whatever the wrap-arounds, reordering and loss, once the packets of a new source have
  been counted, the reported highest sequence number is the low 32 bits of the highest
  true sequence number, and the logged loss is exactly the numbers between the first and
  the highest minus the packets received, as long as no packet is more than half the
  16-bit window away from the highest one and fewer than \<open>2^32\<close> are expected and received.
\<close>

theorem rx_loss_exact:
  assumes new: "\<not> rx_started s \<or> p_ssrc p \<noteq> rx_ssrc s"
    and num: "numbered (p_ssrc p) ps es"
    and win: "windowed es (src_first (uint (p_sequenceNumber p)))"
    and exp: "fold max es (uint (p_sequenceNumber p)) - uint (p_sequenceNumber p) + 1 < 4294967296"
    and rec: "1 + int (length es) < 4294967296"
  shows "sn_lost (rx_snapshot (rx_run ((p, tm) # ps) s)) =
           fold max es (uint (p_sequenceNumber p)) - uint (p_sequenceNumber p) + 1 - (1 + int (length es))
       \<and> rx_extMax (rx_run ((p, tm) # ps) s) = word_of_int (fold max es (uint (p_sequenceNumber p)))"
proof -
  let ?e = "uint (p_sequenceNumber p)"
  let ?a = "src_run es (src_first ?e)"
  let ?s = "rx_run ((p, tm) # ps) s"
  have tr: "rx_tracks ?s ?a" using new num win by (rule rx_run_tracks_spec)
  have max: "sp_max ?a = fold max es ?e" and base: "sp_base ?a = ?e"
    and recv: "sp_received ?a = 1 + int (length es)"
    by (simp_all add: src_run_max src_run_received src_first_def)
  have "uint (rx_expected ?s) = fold max es ?e - ?e + 1"
    using exp fold_max_ge [of ?e es]
    by (simp only: rx_tracks_expected [OF tr] max base uint_u32_of_int) simp
  moreover have "uint (rx_received ?s) = 1 + int (length es)"
  proof -
    have "rx_received ?s = word_of_int (1 + int (length es))"
      using tr recv by (simp only: rx_tracks_def)
    then show ?thesis using rec by (simp only: uint_u32_of_int) simp
  qed
  moreover have "rx_started ?s" using tr by (simp only: rx_tracks_def)
  ultimately have "sn_lost (rx_snapshot ?s) = fold max es ?e - ?e + 1 - (1 + int (length es))"
    unfolding rx_snapshot_def by simp
  then show ?thesis using rx_tracks_extMax [OF tr] max by simp
qed

theorem rx_loss_exact_witness:
  "sn_lost (rx_snapshot (rx_run ((sample_packet 5 65534 0, 0) #
       map (\<lambda>q. (sample_packet 5 q 0, 0)) [65535, 1, 0, 3]) rx_zero)) = 1"
proof -
  have "numbered (p_ssrc (sample_packet 5 65534 0))
      (map (\<lambda>q. (sample_packet 5 q 0, 0)) [65535, 1, 0, 3]) [65535, 65537, 65536, 65539]"
    by (simp add: numbered_def sample_packet_def)
  moreover have "windowed [65535, 65537, 65536, 65539] (src_first (uint (p_sequenceNumber (sample_packet 5 65534 0))))"
    by (simp add: sample_packet_def src_first_def src_next_def in_window_def)
  ultimately show ?thesis
    using rx_loss_exact [of rx_zero "sample_packet 5 65534 0"
        "map (\<lambda>q. (sample_packet 5 q 0, 0)) [65535, 1, 0, 3]" "[65535, 65537, 65536, 65539]" 0]
    by (simp add: rx_zero_def sample_packet_def)
qed

section \<open>The loss fraction of an interval\<close>

text \<open>
  At most \<open>n\<close> packets were counted since the last report, and if none was, no packet was
  expected either.
\<close>

definition interval_ok :: "nat \<Rightarrow> rxStats \<Rightarrow> bool" where
  "interval_ok n s \<longleftrightarrow> (rx_started s \<longrightarrow>
     (\<exists>k \<le> n. rx_received s - rx_receivedPrior s = of_nat k \<and>
        (k = 0 \<longrightarrow> rx_expected s = rx_expectedPrior s)))"

lemma interval_ok_zero: "interval_ok 0 rx_zero"
  by (simp add: interval_ok_def rx_zero_def)

lemma interval_ok_report: "interval_ok 0 (snd (rx_report now s))"
  by (auto simp: interval_ok_def rx_report_def Let_def rx_expected_def rx_extMax_def)

lemma interval_ok_update: "interval_ok n s \<Longrightarrow> interval_ok (Suc n) (rx_update p tm s)"
proof (cases "\<not> rx_started s \<or> p_ssrc p \<noteq> rx_ssrc s")
  case True
  then have "rx_received (rx_update p tm s) - rx_receivedPrior (rx_update p tm s) = of_nat 1"
    by (simp add: rx_sequence_def)
  then show ?thesis unfolding interval_ok_def by (metis One_nat_def Suc_le_mono le0 nat.distinct(1))
next
  case False
  assume "interval_ok n s"
  with False obtain k where k: "k \<le> n" "rx_received s - rx_receivedPrior s = of_nat k"
    by (auto simp: interval_ok_def)
  have "rx_received (rx_update p tm s) - rx_receivedPrior (rx_update p tm s) = of_nat (Suc k)"
    using False k(2) by (simp add: rx_sequence_def algebra_simps)
  with k(1) show ?thesis unfolding interval_ok_def by (metis Suc_le_mono nat.distinct(1))
qed

lemma interval_ok_run: "interval_ok n s \<Longrightarrow> interval_ok (n + length ps) (rx_run ps s)"
proof (induction ps arbitrary: n s)
  case (Cons pa ps)
  then show ?case
    using interval_ok_update [of n s "fst pa" "snd pa"] by (cases pa) fastforce
qed simp

lemma rx_fraction_no_wrap:
  assumes "uint expI = 0 \<or> 0 < uint recI"
  shows "uint (rx_fraction expI recI) =
     (if uint recI < uint expI then (uint expI - uint recI) * 256 div uint expI else 0)"
proof (cases "uint recI < uint expI")
  case True
  let ?q = "(uint expI - uint recI) * 256 div uint expI"
  from True assms have "0 < uint recI" "0 < uint expI" using uint_ge_0 [of recI] by linarith+
  then have "(uint expI - uint recI) * 256 < 256 * uint expI" by simp
  then have "?q < 256" using \<open>0 < uint expI\<close> by (intro int_div_lt) simp_all
  moreover have "0 \<le> ?q" using True \<open>0 < uint expI\<close> by (simp add: pos_imp_zdiv_nonneg_iff)
  ultimately have "uint (word_of_int ?q :: u8) = ?q" by (simp add: uint_word_of_int)
  then show ?thesis using True \<open>0 < uint expI\<close> by (simp add: rx_fraction_def)
qed (simp add: rx_fraction_def)

text \<open>
  C31: the 8-bit loss fraction of a report never wraps. Starting from a fresh \<open>rxStats\<close> or
  right after the previous report, if fewer than \<open>2^32\<close> packets (of any sources) were
  counted, the reported fraction is the exact quotient \<open>256 * lost / expected\<close> of the
  interval, also when the code's \<open>uint8\<close> conversion would turn a full loss into zero:
  a packet is only ever expected because one was received.
\<close>

theorem rx_fraction_exact:
  assumes start: "s0 = rx_zero \<or> (\<exists>t s. s0 = snd (rx_report t s))"
    and few: "length ps < 4294967296"
    and rep: "fst (rx_report now (rx_run ps s0)) = Some rr"
    and expI: "expI = uint (rx_expected (rx_run ps s0) - rx_expectedPrior (rx_run ps s0))"
    and recI: "recI = uint (rx_received (rx_run ps s0) - rx_receivedPrior (rx_run ps s0))"
  shows "uint (rr_fractionLost rr) = (if recI < expI then (expI - recI) * 256 div expI else 0)"
proof -
  let ?s = "rx_run ps s0"
  have "interval_ok (0 + length ps) ?s"
    using start by (intro interval_ok_run) (auto simp: interval_ok_zero interval_ok_report)
  moreover have started: "rx_started ?s"
    using rep by (auto simp: rx_report_def split: if_splits)
  ultimately obtain k where k: "k \<le> length ps" "rx_received ?s - rx_receivedPrior ?s = of_nat k"
      "k = 0 \<longrightarrow> rx_expected ?s = rx_expectedPrior ?s"
    by (auto simp: interval_ok_def)
  have "expI = 0 \<or> 0 < recI"
  proof (cases "k = 0")
    case True
    with k(3) show ?thesis by (simp add: expI)
  next
    case False
    have "recI = uint (word_of_int (int k) :: u32)" by (simp add: recI k(2))
    also have "\<dots> = int k" using k(1) few by (simp only: uint_u32_of_int) simp
    finally show ?thesis using False by simp
  qed
  moreover have "rr_fractionLost rr =
      rx_fraction (rx_expected ?s - rx_expectedPrior ?s) (rx_received ?s - rx_receivedPrior ?s)"
    using rep started by (auto simp: rx_report_def Let_def)
  ultimately show ?thesis
    using rx_fraction_no_wrap expI recI by simp
qed

theorem rx_fraction_exact_witness:
  "\<exists>rr. fst (rx_report second (rx_run (map (\<lambda>q. (sample_packet 5 q 0, 0)) [1, 2, 3, 6, 7, 8, 9, 10]) rx_zero)) = Some rr
      \<and> uint (rr_fractionLost rr) = 51"
proof -
  let ?s = "rx_run (map (\<lambda>q. (sample_packet 5 q 0, 0)) [1, 2, 3, 6, 7, 8, 9, 10]) rx_zero"
  have st: "rx_started ?s" "rx_expected ?s = 10" "rx_expectedPrior ?s = 0" "rx_received ?s = 8" "rx_receivedPrior ?s = 0"
    by code_simp+
  then obtain rr where "fst (rx_report second ?s) = Some rr"
    by (simp add: rx_report_def Let_def)
  with st rx_fraction_exact [of rx_zero "map (\<lambda>q. (sample_packet 5 q 0, 0)) [1, 2, 3, 6, 7, 8, 9, 10]" second rr 10 8]
  show ?thesis by simp
qed

section \<open>Jitter\<close>

lemma jitter_step_nonneg:
  assumes "0 \<le> j" "0 \<le> d"
  shows "0 \<le> fl64 (j + fl64 (fl64 (d - j) / 16))"
proof (rule fl64_nonneg)
  show "0 \<le> j + fl64 (fl64 (d - j) / 16)"
  proof (cases "j \<le> d")
    case True
    then have "0 \<le> fl64 (fl64 (d - j) / 16)" by (simp add: fl64_nonneg)
    with assms show ?thesis by simp
  next
    case False
    have "\<bar>fl64 (fl64 (d - j) / 16)\<bar> \<le> 2 * \<bar>fl64 (d - j) / 16\<bar>" by (rule fl64_double)
    moreover have "\<bar>fl64 (d - j)\<bar> \<le> 2 * \<bar>d - j\<bar>" by (rule fl64_double)
    ultimately show ?thesis using False assms by (simp add: abs_divide)
  qed
qed

lemma rx_update_jitter_nonneg: "0 \<le> rx_jitter s \<Longrightarrow> 0 \<le> rx_jitter (rx_update p tm s)"
  by (auto simp: rx_update_def rx_sequence_def rx_interarrival_def Let_def intro: jitter_step_nonneg)

lemma rx_run_jitter_nonneg: "0 \<le> rx_jitter s \<Longrightarrow> 0 \<le> rx_jitter (rx_run ps s)"
  by (induction ps arbitrary: s) (auto simp: rx_update_jitter_nonneg)

text \<open>
  C32: with the rounding of every floating point operation taken into account, the jitter
  estimate is never negative, whatever packets arrive at whatever times (clock steps
  included). As long as it is below \<open>2^32\<close> ticks of the RTP clock (about 24 hours; a larger
  estimate does not fit the report field), the reported field is its floor.
\<close>

theorem rx_jitter_reported:
  assumes "fst (rx_report now (rx_run ps rx_zero)) = Some rr"
    and "rx_jitter (rx_run ps rx_zero) < 4294967296"
  shows "0 \<le> rx_jitter (rx_run ps rx_zero)
       \<and> int (unat (rr_jitter rr)) = \<lfloor>rx_jitter (rx_run ps rx_zero)\<rfloor>"
proof -
  have "0 \<le> rx_jitter (rx_run ps rx_zero)"
    by (rule rx_run_jitter_nonneg) (simp add: rx_zero_def)
  moreover have "rr_jitter rr = u32_of_float (rx_jitter (rx_run ps rx_zero))"
    using assms(1) by (auto simp: rx_report_def Let_def split: if_splits)
  ultimately show ?thesis using assms(2) unat_u32_of_float by simp
qed

theorem rx_jitter_reported_witness:
  "\<exists>rr. fst (rx_report 0 (rx_run [(sample_packet 5 1 0, 0), (sample_packet 5 2 960, 0)] rx_zero)) = Some rr
      \<and> int (unat (rr_jitter rr)) = 60"
proof -
  let ?ps = "[(sample_packet 5 1 0, 0), (sample_packet 5 2 960, 0)]"
  have j: "rx_jitter (rx_run ?ps rx_zero) = 60" by code_simp
  have "rx_started (rx_run ?ps rx_zero)" by code_simp
  then obtain rr where "fst (rx_report 0 (rx_run ?ps rx_zero)) = Some rr"
    by (simp add: rx_report_def Let_def)
  with rx_jitter_reported [of 0 ?ps rr] j show ?thesis by simp
qed

section \<open>Change of source\<close>

text \<open>
  When the sender restarts with another SSRC, the next packet restarts the statistics
  (one packet expected and received, none lost or reordered, no jitter) but the last sender
  report survives, so the following reception report still echoes it for round-trip
  estimation.
\<close>

lemma rx_source_change:
  assumes "rx_started s" and "p_ssrc p \<noteq> rx_ssrc s"
  shows "rx_expected (rx_update p tm s) = 1 \<and> rx_received (rx_update p tm s) = 1
       \<and> rx_reorder (rx_update p tm s) = 0 \<and> rx_jitter (rx_update p tm s) = 0
       \<and> (\<exists>rr. fst (rx_report now (rx_update p tm s)) = Some rr \<and> rr_ssrc rr = p_ssrc p
            \<and> rr_fractionLost rr = 0 \<and> rr_totalLost rr = 0
            \<and> rr_lastSenderReport rr = rx_lastSR s)"
proof -
  have "rx_expected (rx_update p tm s) = 1" "rx_received (rx_update p tm s) = 1"
    "rx_reorder (rx_update p tm s) = 0" "rx_jitter (rx_update p tm s) = 0"
    "rx_expectedPrior (rx_update p tm s) = 0" "rx_receivedPrior (rx_update p tm s) = 0"
    using assms by (simp_all add: op_defs Let_def)
  then show ?thesis by (simp add: rx_report_def rx_fraction_def Let_def)
qed

lemma rx_source_change_example:
  "rx_lastSR (rx_update (sample_packet 9 7 0) 0
      (rx_noteSenderReport 0x12345678 0 (rx_update (sample_packet 5 1 0) 0 rx_zero))) = 0x1234
   \<and> rx_expected (rx_update (sample_packet 9 7 0) 0
      (rx_noteSenderReport 0x12345678 0 (rx_update (sample_packet 5 1 0) 0 rx_zero))) = 1"
proof -
  let ?s = "rx_noteSenderReport 0x12345678 0 (rx_update (sample_packet 5 1 0) 0 rx_zero)"
  have "rx_started ?s" "p_ssrc (sample_packet 9 7 0) \<noteq> rx_ssrc ?s"
    by (simp_all add: rx_noteSenderReport_def sample_packet_def)
  from rx_source_change [OF this, of 0 0] show ?thesis
    by (simp add: rx_noteSenderReport_def)
qed

section \<open>Sender reports\<close>

lemma or_low_bits:
  assumes "uint (b :: u64) < 4294967296"
  shows "push_bit 32 a OR b = push_bit 32 a + b"
proof -
  have "uint (take_bit 32 b) = uint b"
    using assms by (simp add: unsigned_take_bit_eq take_bit_int_eq_self)
  then have "take_bit 32 b = b" by (rule word_uint_eqI)
  then have "\<not> bit b n" if "32 \<le> n" for n
    using that by (metis bit_take_bit_iff not_less)
  then show ?thesis
    by (intro disjunctive_add [symmetric]) (auto simp: bit_push_bit_iff)
qed

text \<open>
  \<open>ntpTime\<close> is the clock as 32.32 fixed point since 1900, modulo \<open>2^64\<close>: the
  fractional part never spills into the seconds and is rounded down.
\<close>

lemma ntpTime_exact:
  "uint (ntpTime t) =
     (t * 4294967296 div 1000000000 + ntpEpochOffset * 4294967296) mod 18446744073709551616"
proof -
  let ?sec = "t div second + ntpEpochOffset"
  let ?ns = "t mod second"
  let ?fr = "?ns * 4294967296 div 1000000000"
  have ns: "0 \<le> ?ns" "?ns < 1000000000" by simp_all
  have fr: "0 \<le> ?fr" "?fr < 4294967296"
    using ns by (auto intro!: int_div_lt simp: pos_imp_zdiv_nonneg_iff)
  have frac: "(word_of_int ?ns * 0x100000000 div 1000000000 :: u64) = word_of_int ?fr"
  proof -
    have "(word_of_int ?ns * 0x100000000 :: u64) = word_of_int (?ns * 4294967296)" by simp
    moreover have "uint (word_of_int (?ns * 4294967296) :: u64) = ?ns * 4294967296"
      using ns by (simp add: uint_word_of_int del: wi_hom_mult of_int_mult)
    ultimately show ?thesis by (simp only: word_div_def) simp
  qed
  have "push_bit 32 (word_of_int ?sec :: u64) = word_of_int (?sec * 4294967296)"
    by (simp add: push_bit_eq_mult)
  moreover have "uint (word_of_int ?fr :: u64) < 4294967296"
    using fr by (simp add: uint_word_of_int)
  ultimately have nt: "ntpTime t = word_of_int (?sec * 4294967296 + ?fr)"
    by (simp add: ntpTime_def Let_def frac or_low_bits)
  have "uint (word_of_int (?sec * 4294967296 + ?fr) :: u64) =
      (?sec * 4294967296 + ?fr) mod 18446744073709551616"
    by (subst uint_word_of_int) simp
  moreover have "t * 4294967296 div 1000000000 = (t div second) * 4294967296 + ?fr"
  proof -
    have "t * 4294967296 = ?ns * 4294967296 + (t div second * 4294967296) * 1000000000"
      using div_mult_mod_eq [of t second] by linarith
    then show ?thesis by simp
  qed
  ultimately show ?thesis
    by (simp only: nt) (simp only: algebra_simps)
qed

fun tx_run :: "(rtp_packet \<times> go_time) list \<Rightarrow> txStats \<Rightarrow> txStats" where
  "tx_run [] s = s"
| "tx_run ((p, tm) # ps) s = tx_run ps (tx_sent p tm s)"

lemma tx_run_counts:
  "tx_packets (tx_run ps s) = tx_packets s + of_nat (length ps)"
  "tx_octets (tx_run ps s) = tx_octets s + of_nat (sum_list (map (length \<circ> p_payload \<circ> fst) ps))"
  by (induction ps s rule: tx_run.induct) (simp_all add: tx_sent_def algebra_simps)

lemma tx_run_snoc: "tx_run (ps @ [(p, tm)]) s = tx_sent p tm (tx_run ps s)"
  by (induction ps s rule: tx_run.induct) simp_all

text \<open>
  a sender report exists exactly when something was sent; it counts every packet and
  payload byte sent so far (modulo \<open>2^32\<close>) and carries the last packet's source and
  timestamp, advanced by the time elapsed since it was sent.
\<close>

lemma tx_report_counts:
  "tx_senderReport now tx_zero = None
   \<and> (\<exists>sr. tx_senderReport now (tx_run (ps @ [(p, tm)]) tx_zero) = Some sr
        \<and> sr_packetCount sr = of_nat (length ps + 1)
        \<and> sr_octetCount sr = of_nat (sum_list (map (length \<circ> p_payload \<circ> fst) ps) + length (p_payload p))
        \<and> sr_ssrc sr = p_ssrc p \<and> sr_ntpTime sr = ntpTime now
        \<and> sr_rtpTime sr = p_timestamp p + u32_of_float (fl64 (seconds (time_sub now tm) * opusClockRate)))"
  using tx_run_counts [of "ps" tx_zero]
  by (auto simp: tx_senderReport_def tx_run_snoc Let_def)
     (simp_all add: tx_zero_def tx_sent_def algebra_simps)

end
