(* ===== verification/MediaPath.thy ===== *)
theory MediaPath
  imports RtpStats GoStrings "HOL-Library.Multiset" "HOL-Library.Sublist"
begin

text \<open>
  \<open>internal/media/transport.go\<close>, the traffic of an established \<open>Transport\<close>: inbound RTP from
  every SRTP stream through one bounded queue to \<open>ReadRTP\<close>, outbound RTP through
  \<open>TryWriteRTP\<close>, RTCP in both directions and the statistics. What \<open>Wait\<close> returns and whether
  the SRTP and SRTCP sessions are set comes from the life cycle (theory \<open>Transport\<close>) as
  arguments; the packet codecs and the session's writes are arguments too. \<open>pump_step\<close>
  interleaves any number of stream readers with the consumer at the granularity of one
  channel operation.
\<close>

section \<open>State\<close>

datatype rtcp_packet =
    RSenderReport senderReport
  | RReceiverReport u32 "receptionReport list"
  | RSourceDescription u32 string            \<comment> \<open>source and CNAME\<close>
  | ROther "u8 list"

text \<open>\<open>pumpDone\<close> is closed exactly when \<open>mp_pumpErr\<close> is set; \<open>mp_write\<close> and \<open>mp_rtcpOut\<close> say
  whether the write streams are open.\<close>

record mediaPath =
  mp_mediaTimeout :: duration
  mp_rtpIn :: "rtp_packet list"
  mp_pumpErr :: "go_error option"
  mp_sawRTP :: bool
  mp_rxDropped :: u64
  mp_rx :: rxStats
  mp_tx :: txStats
  mp_rtcpSSRC :: u32
  mp_rtcpReports :: "rtcp_packet list list"
  mp_write :: bool
  mp_rtcpOut :: bool

definition rtpQueueSize :: nat where "rtpQueueSize = 256"
definition rtcpQueueSize :: nat where "rtcpQueueSize = 32"

definition newMediaPath :: "duration \<Rightarrow> u32 \<Rightarrow> mediaPath" where
  "newMediaPath timeout rnd = \<lparr>mp_mediaTimeout = timeout, mp_rtpIn = [], mp_pumpErr = None, mp_sawRTP = False,
     mp_rxDropped = 0, mp_rx = rx_zero, mp_tx = tx_zero, mp_rtcpSSRC = rnd, mp_rtcpReports = [],
     mp_write = False, mp_rtcpOut = False\<rparr>"

section \<open>Inbound RTP\<close>

text \<open>Where a \<open>readStream\<close> goroutine stands: reading, about to evict because the queue was full
  for its packet, or about to try the packet a second time.\<close>

datatype reader = Reading | Full rtp_packet | Retry rtp_packet

text \<open>One datagram: undecodable ones are skipped; a packet is counted, then sent to the queue
  if there is room.\<close>

definition readStream_recv :: "(u8 list \<Rightarrow> rtp_packet option) \<Rightarrow> u8 list \<Rightarrow> go_time \<Rightarrow> mediaPath \<Rightarrow> reader \<times> mediaPath" where
  "readStream_recv unmarshal b now m =
     (case unmarshal b of
        None \<Rightarrow> (Reading, m)
      | Some p \<Rightarrow>
          let m1 = m\<lparr>mp_rx := rx_update p now (mp_rx m), mp_sawRTP := True\<rparr>
          in if length (mp_rtpIn m) < rtpQueueSize then (Reading, m1\<lparr>mp_rtpIn := mp_rtpIn m @ [p]\<rparr>)
             else (Full p, m1))"

text \<open>Dropping the oldest packet, unless the consumer emptied the queue meanwhile.\<close>

definition readStream_evict :: "mediaPath \<Rightarrow> mediaPath" where
  "readStream_evict m =
     (case mp_rtpIn m of
        [] \<Rightarrow> m
      | x # q \<Rightarrow> m\<lparr>mp_rtpIn := q, mp_rxDropped := mp_rxDropped m + 1\<rparr>)"

text \<open>The second attempt; the packet itself is dropped if another reader took the place.\<close>

definition readStream_retry :: "rtp_packet \<Rightarrow> mediaPath \<Rightarrow> mediaPath" where
  "readStream_retry p m =
     (if length (mp_rtpIn m) < rtpQueueSize then m\<lparr>mp_rtpIn := mp_rtpIn m @ [p]\<rparr>
      else m\<lparr>mp_rxDropped := mp_rxDropped m + 1\<rparr>)"

text \<open>The three channel operations without interference.\<close>

definition enqueue_rtp :: "rtp_packet \<Rightarrow> rtp_packet list \<Rightarrow> rtp_packet list" where
  "enqueue_rtp p q = (if length q < rtpQueueSize then q @ [p] else tl q @ [p])"

text \<open>\<open>acceptLoop\<close> ends with the first error: \<open>pumpErrOnce\<close>.\<close>

definition acceptLoop_failed :: "go_error \<Rightarrow> mediaPath \<Rightarrow> mediaPath" where
  "acceptLoop_failed e m = (if mp_pumpErr m = None then m\<lparr>mp_pumpErr := Some e\<rparr> else m)"

text \<open>The branch that \<open>select\<close> takes in \<open>ReadRTP\<close>.\<close>

datatype wakeup = W_packet | W_expired | W_pumpDone | W_ctx go_error

text \<open>\<open>ReadRTP\<close>, given what \<open>Wait\<close> returned and whether \<open>t.srtp\<close> is set. \<open>None\<close>: the branch is
  not ready (a nil timer channel never is).\<close>

definition ReadRTP :: "go_error option \<Rightarrow> bool \<Rightarrow> wakeup \<Rightarrow> mediaPath \<Rightarrow> (rtp_packet result \<times> mediaPath) option" where
  "ReadRTP wait srtp w m =
     (case wait of
        Some e \<Rightarrow> Some (Inl e, m)
      | None \<Rightarrow>
          if \<not> srtp then Some (Inl ErrEOF, m)
          else (case w of
            W_packet \<Rightarrow> (case mp_rtpIn m of [] \<Rightarrow> None | p # q \<Rightarrow> Some (Inr p, m\<lparr>mp_rtpIn := q\<rparr>))
          | W_expired \<Rightarrow>
              (if mp_mediaTimeout m \<le> 0 then None
               else if mp_sawRTP m then Some (Inl (Wrapped ''inbound RTP stopped: '' ErrOSDeadline []), m)
               else Some (Inl (Wrapped [] ErrNoInboundRTP ('' within '' @ duration_string (mp_mediaTimeout m))), m))
          | W_pumpDone \<Rightarrow>
              (case mp_pumpErr m of
                 None \<Rightarrow> None
               | Some e \<Rightarrow> Some (Inl (Wrapped ''inbound RTP stopped: '' e []), m))
          | W_ctx e \<Rightarrow> Some (Inl e, m)))"

section \<open>Outbound RTP\<close>

text \<open>\<open>open\<close>, \<open>marshal\<close>, \<open>wr\<close>: what \<open>OpenWriteStream\<close>, \<open>Marshal\<close> and \<open>Write\<close> answer.\<close>

definition writeRTP :: "go_error option \<Rightarrow> (rtp_packet \<Rightarrow> u8 list result) \<Rightarrow> (u8 list \<Rightarrow> go_error option) \<Rightarrow> bool \<Rightarrow>
    go_time \<Rightarrow> rtp_packet \<Rightarrow> mediaPath \<Rightarrow> go_error option \<times> mediaPath" where
  "writeRTP opn marshal wr srtp now p m =
     (if \<not> srtp then (Some ErrEOF, m)
      else if \<not> mp_write m \<and> opn \<noteq> None then (opn, m)
      else
        let m1 = m\<lparr>mp_write := True\<rparr>
        in (case marshal p of
              Inl e \<Rightarrow> (Some e, m1)
            | Inr b \<Rightarrow>
                (case wr b of
                   Some e \<Rightarrow> (Some e, m1)
                 | None \<Rightarrow> (None, m1\<lparr>mp_tx := tx_sent p now (mp_tx m1)\<rparr>))))"

definition WriteRTP :: "go_error option \<Rightarrow> go_error option \<Rightarrow> (rtp_packet \<Rightarrow> u8 list result) \<Rightarrow> (u8 list \<Rightarrow> go_error option) \<Rightarrow>
    bool \<Rightarrow> go_time \<Rightarrow> rtp_packet \<Rightarrow> mediaPath \<Rightarrow> go_error option \<times> mediaPath" where
  "WriteRTP wait opn marshal wr srtp now p m =
     (if wait \<noteq> None then (wait, m) else writeRTP opn marshal wr srtp now p m)"

definition TryWriteRTP :: "bool \<Rightarrow> go_error option \<Rightarrow> go_error option \<Rightarrow> (rtp_packet \<Rightarrow> u8 list result) \<Rightarrow>
    (u8 list \<Rightarrow> go_error option) \<Rightarrow> bool \<Rightarrow> go_time \<Rightarrow> rtp_packet \<Rightarrow> mediaPath \<Rightarrow> go_error option \<times> mediaPath" where
  "TryWriteRTP ready err opn marshal wr srtp now p m =
     (if \<not> ready then (Some ErrMediaNotReady, m)
      else if err \<noteq> None then (err, m)
      else writeRTP opn marshal wr srtp now p m)"

section \<open>Statistics and RTCP\<close>

record Stats =
  st_RxPackets :: u32
  st_RxLost :: int
  st_RxReordered :: u64
  st_RxDropped :: u64
  st_RxJitterMs :: rat
  st_TxPackets :: u32

definition mp_Stats :: "mediaPath \<Rightarrow> Stats" where
  "mp_Stats m =
     (let rx = rx_snapshot (mp_rx m)
      in \<lparr>st_RxPackets = sn_received rx, st_RxLost = sn_lost rx, st_RxReordered = sn_reordered rx,
          st_RxDropped = mp_rxDropped m, st_RxJitterMs = sn_jitterMs rx, st_TxPackets = tx_packets (mp_tx m)\<rparr>)"

definition cname :: string where "cname = ''whatsapp-connector''"

definition buildRTCP :: "go_time \<Rightarrow> mediaPath \<Rightarrow> rtcp_packet list \<times> mediaPath" where
  "buildRTCP now m =
     (let (rr, rx') = rx_report now (mp_rx m);
          blocks = (case rr of Some r \<Rightarrow> [r] | None \<Rightarrow> []);
          (head, ssrc) = (case tx_senderReport now (mp_tx m) of
             Some sr \<Rightarrow> (RSenderReport (sr\<lparr>sr_reports := blocks\<rparr>), sr_ssrc sr)
           | None \<Rightarrow> (RReceiverReport (mp_rtcpSSRC m) blocks, mp_rtcpSSRC m))
      in ([head, RSourceDescription ssrc cname], m\<lparr>mp_rx := rx'\<rparr>))"

definition sendRTCP :: "(rtcp_packet list \<Rightarrow> u8 list result) \<Rightarrow> bool \<Rightarrow> go_error option \<Rightarrow> (u8 list \<Rightarrow> go_error option) \<Rightarrow>
    go_time \<Rightarrow> mediaPath \<Rightarrow> go_error option \<times> mediaPath" where
  "sendRTCP marshal srtcp opn wr now m =
     (let (packets, m1) = buildRTCP now m
      in (case marshal packets of
            Inl e \<Rightarrow> (Some e, m1)
          | Inr raw \<Rightarrow>
              if \<not> srtcp then (Some ErrEOF, m1)
              else if \<not> mp_rtcpOut m1 \<and> opn \<noteq> None then (opn, m1)
              else (wr raw, m1\<lparr>mp_rtcpOut := True\<rparr>)))"

text \<open>\<open>RunRTCP\<close> on the ticks that come before one of the contexts ends.\<close>

definition RunRTCP :: "duration \<Rightarrow> go_error option \<Rightarrow> (rtcp_packet list \<Rightarrow> u8 list result) \<Rightarrow> bool \<Rightarrow> go_error option \<Rightarrow>
    (u8 list \<Rightarrow> go_error option) \<Rightarrow> go_time list \<Rightarrow> mediaPath \<Rightarrow> mediaPath" where
  "RunRTCP interval wait marshal srtcp opn wr ticks m =
     (if interval \<le> 0 \<or> wait \<noteq> None then m
      else fold (\<lambda>now m. snd (sendRTCP marshal srtcp opn wr now m)) ticks m)"

text \<open>A reader of an SRTCP stream (\<open>drainSRTCP\<close>): about to read, or holding the packets of a datagram,
  of which the second component is still to be looked at. Every sender report is noted, each in
  its own critical section, then the packets are offered to the diagnostics queue and dropped
  if it is full.\<close>

datatype drain = Drain_read | Drain_note "rtcp_packet list" "rtcp_packet list"

definition drainSRTCP_recv :: "(u8 list \<Rightarrow> rtcp_packet list option) \<Rightarrow> u8 list \<Rightarrow> drain" where
  "drainSRTCP_recv unmarshal b = (case unmarshal b of None \<Rightarrow> Drain_read | Some packets \<Rightarrow> Drain_note packets packets)"

definition drainSRTCP_note :: "go_time \<Rightarrow> rtcp_packet \<Rightarrow> mediaPath \<Rightarrow> mediaPath" where
  "drainSRTCP_note now pkt m =
     (case pkt of RSenderReport sr \<Rightarrow> m\<lparr>mp_rx := rx_noteSenderReport (sr_ntpTime sr) now (mp_rx m)\<rparr> | _ \<Rightarrow> m)"

definition enqueue_rtcp :: "rtcp_packet list \<Rightarrow> rtcp_packet list list \<Rightarrow> rtcp_packet list list" where
  "enqueue_rtcp pkts q = (if length q < rtcpQueueSize then q @ [pkts] else q)"

definition drainSRTCP_offer :: "rtcp_packet list \<Rightarrow> mediaPath \<Rightarrow> mediaPath" where
  "drainSRTCP_offer packets m = m\<lparr>mp_rtcpReports := enqueue_rtcp packets (mp_rtcpReports m)\<rparr>"

interpretation rtp_queue: bounded_channel rtpQueueSize enqueue_rtp
proof
  show "length q \<le> rtpQueueSize \<Longrightarrow> length (enqueue_rtp x q) \<le> rtpQueueSize" for x q
    by (auto simp: enqueue_rtp_def rtpQueueSize_def)
  show "\<exists>k. enqueue_rtp x q = drop k (q @ [x]) \<or> enqueue_rtp x q = q" for x q
  proof (cases "length q < rtpQueueSize")
    case True
    then show ?thesis unfolding enqueue_rtp_def by (intro exI [of _ 0]) simp
  next
    case False
    then have "q \<noteq> []" by (auto simp: rtpQueueSize_def)
    with False show ?thesis unfolding enqueue_rtp_def by (intro exI [of _ 1]) (cases q; simp)
  qed
qed

interpretation rtcp_queue: bounded_channel rtcpQueueSize enqueue_rtcp
proof
  show "length q \<le> rtcpQueueSize \<Longrightarrow> length (enqueue_rtcp x q) \<le> rtcpQueueSize" for x q
    by (simp add: enqueue_rtcp_def)
  show "\<exists>k. enqueue_rtcp x q = drop k (q @ [x]) \<or> enqueue_rtcp x q = q" for x q
    unfolding enqueue_rtcp_def by (rule exI [of _ 0]) simp
qed

section \<open>Readers and consumer interleaved\<close>

text \<open>The media path with its stream readers and the SSRC of each stream, and as history the
  packets that arrived, were handed to the bridge by \<open>ReadRTP\<close>, and were dropped. An SRTP
  session hands out one stream per SSRC (\<open>streamAcceptor\<close>).\<close>

record pump_sys =
  pu_m :: mediaPath
  pu_readers :: "reader list"
  pu_streams :: "u32 list"
  pu_arrived :: "rtp_packet list"
  pu_read :: "rtp_packet list"
  pu_dropped :: "rtp_packet list"

definition pump_init :: "pump_sys \<Rightarrow> bool" where
  "pump_init s \<longleftrightarrow> (\<exists>timeout rnd. s = \<lparr>pu_m = newMediaPath timeout rnd, pu_readers = [], pu_streams = [], pu_arrived = [],
     pu_read = [], pu_dropped = []\<rparr>)"

inductive pump_step :: "pump_sys \<Rightarrow> pump_sys \<Rightarrow> bool" where
  accept: "k \<notin> set (pu_streams s) \<Longrightarrow>
    pump_step s (s\<lparr>pu_readers := pu_readers s @ [Reading], pu_streams := pu_streams s @ [k]\<rparr>)"
| accept_failed: "pump_step s (s\<lparr>pu_m := acceptLoop_failed e (pu_m s)\<rparr>)"
| garbage: "i < length (pu_readers s) \<Longrightarrow> pu_readers s ! i = Reading \<Longrightarrow> unmarshal b = None \<Longrightarrow>
    readStream_recv unmarshal b now (pu_m s) = (r, m) \<Longrightarrow>
    pump_step s (s\<lparr>pu_m := m, pu_readers := (pu_readers s)[i := r]\<rparr>)"
| arrive: "i < length (pu_readers s) \<Longrightarrow> pu_readers s ! i = Reading \<Longrightarrow> unmarshal b = Some p \<Longrightarrow>
    p_ssrc p = pu_streams s ! i \<Longrightarrow> readStream_recv unmarshal b now (pu_m s) = (r, m) \<Longrightarrow>
    pump_step s (s\<lparr>pu_m := m, pu_readers := (pu_readers s)[i := r], pu_arrived := pu_arrived s @ [p]\<rparr>)"
| evict: "i < length (pu_readers s) \<Longrightarrow> pu_readers s ! i = Full p \<Longrightarrow>
    pump_step s (s\<lparr>pu_m := readStream_evict (pu_m s), pu_readers := (pu_readers s)[i := Retry p],
      pu_dropped := pu_dropped s @ take 1 (mp_rtpIn (pu_m s))\<rparr>)"
| retry: "i < length (pu_readers s) \<Longrightarrow> pu_readers s ! i = Retry p \<Longrightarrow>
    pump_step s (s\<lparr>pu_m := readStream_retry p (pu_m s), pu_readers := (pu_readers s)[i := Reading],
      pu_dropped := pu_dropped s @ (if length (mp_rtpIn (pu_m s)) < rtpQueueSize then [] else [p])\<rparr>)"
| consume: "ReadRTP None True W_packet (pu_m s) = Some (Inr p, m) \<Longrightarrow>
    pump_step s (s\<lparr>pu_m := m, pu_read := pu_read s @ [p]\<rparr>)"

primrec carried :: "reader \<Rightarrow> rtp_packet list" where
  "carried Reading = []"
| "carried (Full p) = [p]"
| "carried (Retry p) = [p]"

definition in_hand :: "reader list \<Rightarrow> rtp_packet multiset" where
  "in_hand rs = mset (concat (map carried rs))"

definition pump_inv :: "pump_sys \<Rightarrow> bool" where
  "pump_inv s \<longleftrightarrow>
     mset (pu_arrived s) = mset (pu_read s) + mset (mp_rtpIn (pu_m s)) + mset (pu_dropped s) + in_hand (pu_readers s) \<and>
     mp_rxDropped (pu_m s) = of_nat (length (pu_dropped s)) \<and>
     length (mp_rtpIn (pu_m s)) \<le> rtpQueueSize \<and>
     (mp_sawRTP (pu_m s) \<longleftrightarrow> pu_arrived s \<noteq> [])"

lemma in_hand_append [simp]: "in_hand (rs @ [r]) = in_hand rs + mset (carried r)"
  by (simp add: in_hand_def)

lemma mset_concat_update:
  "i < length rs \<Longrightarrow> mset (concat (map f (rs[i := r]))) + mset (f (rs ! i)) = mset (concat (map f rs)) + mset (f r)"
proof (induction rs arbitrary: i)
  case (Cons x rs)
  then show ?case by (cases i) (auto simp: ac_simps)
qed simp

lemma in_hand_update:
  "i < length rs \<Longrightarrow> in_hand (rs[i := r]) + mset (carried (rs ! i)) = in_hand rs + mset (carried r)"
  unfolding in_hand_def by (rule mset_concat_update)

lemma in_hand_set:
  "i < length rs \<Longrightarrow> rs ! i = r0 \<Longrightarrow> carried r0 = [] \<Longrightarrow> in_hand (rs[i := r]) = in_hand rs + mset (carried r)"
  using in_hand_update [of i rs r] by simp

lemma in_hand_done:
  "i < length rs \<Longrightarrow> rs ! i = r0 \<Longrightarrow> carried r0 = [p] \<Longrightarrow> in_hand rs = in_hand (rs[i := Reading]) + {#p#}"
  using in_hand_update [of i rs Reading] by simp

lemma in_hand_same:
  "i < length rs \<Longrightarrow> carried r = carried (rs ! i) \<Longrightarrow> in_hand (rs[i := r]) = in_hand rs"
  using in_hand_update [of i rs r] by simp

lemma pump_inv_step: "pump_inv s \<Longrightarrow> pump_step s t \<Longrightarrow> pump_inv t"
proof (erule pump_step.cases)
  fix sa i unmarshal and b :: "u8 list" and p :: rtp_packet and now r m
  assume *: "pump_inv s" "s = sa" "t = sa\<lparr>pu_m := m, pu_readers := (pu_readers sa)[i := r], pu_arrived := pu_arrived sa @ [p]\<rparr>"
    "i < length (pu_readers sa)" "pu_readers sa ! i = Reading" "unmarshal b = Some p"
    "p_ssrc p = pu_streams sa ! i" "readStream_recv unmarshal b now (pu_m sa) = (r, m)"
  then show "pump_inv t"
    using in_hand_set [of i "pu_readers sa" Reading r]
    by (auto simp: pump_inv_def readStream_recv_def Let_def split: if_splits)
next
  fix sa i p
  assume *: "pump_inv s" "s = sa" "t = sa\<lparr>pu_m := readStream_evict (pu_m sa), pu_readers := (pu_readers sa)[i := Retry p],
      pu_dropped := pu_dropped sa @ take 1 (mp_rtpIn (pu_m sa))\<rparr>" "i < length (pu_readers sa)" "pu_readers sa ! i = Full p"
  then show "pump_inv t"
    using in_hand_same [of i "pu_readers sa" "Retry p"]
    by (cases "mp_rtpIn (pu_m sa)") (auto simp: pump_inv_def readStream_evict_def)
next
  fix sa i p
  assume *: "pump_inv s" "s = sa" "t = sa\<lparr>pu_m := readStream_retry p (pu_m sa), pu_readers := (pu_readers sa)[i := Reading],
      pu_dropped := pu_dropped sa @ (if length (mp_rtpIn (pu_m sa)) < rtpQueueSize then [] else [p])\<rparr>"
    "i < length (pu_readers sa)" "pu_readers sa ! i = Retry p"
  then show "pump_inv t"
    using in_hand_done [of i "pu_readers sa" "Retry p" p]
    by (auto simp: pump_inv_def readStream_retry_def)
next
  fix sa p m
  assume "pump_inv s" "s = sa" "t = sa\<lparr>pu_m := m, pu_read := pu_read sa @ [p]\<rparr>"
    "ReadRTP None True W_packet (pu_m sa) = Some (Inr p, m)"
  then show "pump_inv t"
    by (auto simp: pump_inv_def ReadRTP_def split: list.splits)
qed (auto simp: pump_inv_def acceptLoop_failed_def readStream_recv_def list_update_id in_hand_same)

interpretation pump: safe_system pump_init pump_step pump_inv
proof
  show "pump_init s \<Longrightarrow> pump_inv s" for s
    by (auto simp: pump_init_def pump_inv_def newMediaPath_def in_hand_def)
  show "pump_inv s \<Longrightarrow> pump_step s t \<Longrightarrow> pump_inv t" for s t by (rule pump_inv_step)
qed

section \<open>Order within a source\<close>

text \<open>Every reader carries packets of its own stream only; so what a source has delivered,
  queued and in hand, in this order, is part of what arrived from it, in order.\<close>

abbreviation of_source :: "u32 \<Rightarrow> rtp_packet list \<Rightarrow> rtp_packet list" where
  "of_source k \<equiv> filter (\<lambda>p. p_ssrc p = k)"

definition streams_ok :: "reader list \<Rightarrow> u32 list \<Rightarrow> bool" where
  "streams_ok rs ks \<longleftrightarrow> distinct ks \<and> list_all2 (\<lambda>r k. \<forall>p \<in> set (carried r). p_ssrc p = k) rs ks"

definition order_inv :: "pump_sys \<Rightarrow> bool" where
  "order_inv s \<longleftrightarrow> streams_ok (pu_readers s) (pu_streams s) \<and>
     (\<forall>k. subseq (of_source k (pu_read s @ mp_rtpIn (pu_m s) @ concat (map carried (pu_readers s))))
        (of_source k (pu_arrived s)))"

lemma hand_other: "streams_ok rs ks \<Longrightarrow> k \<notin> set ks \<Longrightarrow> of_source k (concat (map carried rs)) = []"
  unfolding streams_ok_def
proof (induction rs arbitrary: ks)
  case (Cons r rs)
  then show ?case by (cases ks) (auto simp: filter_empty_conv)
qed simp

lemma hand_own:
  "streams_ok rs ks \<Longrightarrow> i < length rs \<Longrightarrow> of_source (ks ! i) (concat (map carried rs)) = carried (rs ! i)"
proof (induction rs arbitrary: ks i)
  case (Cons r rs)
  then obtain k ks' where ks: "ks = k # ks'" by (cases ks) (auto simp: streams_ok_def)
  with Cons.prems have ok: "streams_ok rs ks'" "k \<notin> set ks'" and r: "of_source k (carried r) = carried r"
    by (auto simp: streams_ok_def filter_id_conv)
  show ?case
  proof (cases i)
    case 0
    then show ?thesis using ks r hand_other [OF ok] by simp
  next
    case (Suc j)
    then have "ks' ! j \<noteq> k" using ok Cons.prems ks
      by (auto simp: streams_ok_def dest: list_all2_lengthD)
    moreover have "\<forall>p \<in> set (carried r). p_ssrc p = k" using Cons.prems(1) ks by (simp add: streams_ok_def)
    ultimately have "of_source (ks' ! j) (carried r) = []" by (auto simp: filter_empty_conv)
    then show ?thesis using Suc ks Cons.IH [OF ok(1)] Cons.prems(2) by simp
  qed
qed simp

lemma streams_ok_update:
  "streams_ok rs ks \<Longrightarrow> i < length rs \<Longrightarrow> \<forall>p \<in> set (carried r). p_ssrc p = ks ! i \<Longrightarrow> streams_ok (rs[i := r]) ks"
  by (auto simp: streams_ok_def list_all2_conv_all_nth nth_list_update)

lemma hand_update_other:
  assumes "streams_ok rs ks" "i < length rs" "\<forall>p \<in> set (carried r). p_ssrc p = ks ! i" "k \<noteq> ks ! i"
  shows "of_source k (concat (map carried (rs[i := r]))) = of_source k (concat (map carried rs))"
proof (cases "\<exists>j < length rs. k = ks ! j")
  case True
  then obtain j where j: "j < length rs" "k = ks ! j" by blast
  with assms have "j \<noteq> i" by auto
  with j show ?thesis
    using hand_own [OF streams_ok_update [OF assms(1,2,3)], of j] hand_own [OF assms(1), of j] by simp
next
  case False
  moreover have "length rs = length ks" using assms(1) by (auto simp: streams_ok_def dest: list_all2_lengthD)
  ultimately have "k \<notin> set ks" by (metis in_set_conv_nth)
  then show ?thesis
    using hand_other [OF streams_ok_update [OF assms(1,2,3)]] hand_other [OF assms(1)] by simp
qed

lemma hand_update:
  assumes "streams_ok rs ks" "i < length rs" "\<forall>p \<in> set (carried r). p_ssrc p = ks ! i"
  shows "of_source k (concat (map carried (rs[i := r]))) =
    (if k = ks ! i then carried r else of_source k (concat (map carried rs)))"
  using hand_update_other [OF assms] hand_own [OF streams_ok_update [OF assms], of i] assms(2) by auto

lemma order_inv_arrive:
  assumes "order_inv s" "i < length (pu_readers s)" "pu_readers s ! i = Reading" "unmarshal b = Some p"
    "p_ssrc p = pu_streams s ! i" "readStream_recv unmarshal b now (pu_m s) = (r, m)"
  shows "order_inv (s\<lparr>pu_m := m, pu_readers := (pu_readers s)[i := r], pu_arrived := pu_arrived s @ [p]\<rparr>)"
proof -
  let ?rs = "pu_readers s" and ?ks = "pu_streams s"
  have ok: "streams_ok ?rs ?ks"
    and sub: "subseq (of_source k (pu_read s @ mp_rtpIn (pu_m s) @ concat (map carried ?rs))) (of_source k (pu_arrived s))" for k
    using assms(1) by (simp_all add: order_inv_def)
  have r: "mp_rtpIn m @ carried r = mp_rtpIn (pu_m s) @ [p]" "\<forall>x \<in> set (carried r). p_ssrc x = ?ks ! i"
    using assms(4-6) by (auto simp: readStream_recv_def Let_def split: if_splits)
  have own: "of_source (?ks ! i) (concat (map carried ?rs)) = []"
    using hand_own [OF ok assms(2)] assms(3) by simp
  have "of_source k (mp_rtpIn m @ concat (map carried (?rs[i := r]))) =
      of_source k (mp_rtpIn (pu_m s) @ concat (map carried ?rs)) @ of_source k [p]" for k
  proof (cases "k = ?ks ! i")
    case True
    have "of_source k (mp_rtpIn m @ carried r) = of_source k (mp_rtpIn (pu_m s) @ [p])" by (simp only: r(1))
    then show ?thesis using True hand_update [OF ok assms(2) r(2)] own r(2) by (simp add: filter_id_conv)
  next
    case False
    then have "of_source k (carried r) = []" using r(2) by (auto simp: filter_empty_conv)
    moreover have "of_source k (mp_rtpIn m @ carried r) = of_source k (mp_rtpIn (pu_m s) @ [p])" by (simp only: r(1))
    ultimately show ?thesis using False assms(5) hand_update [OF ok assms(2) r(2)] by simp
  qed
  then have "subseq (of_source k (pu_read s @ mp_rtpIn m @ concat (map carried (?rs[i := r])))) (of_source k (pu_arrived s @ [p]))" for k
    using list_emb_append_mono [OF sub [of k], of "of_source k [p]" "of_source k [p]"] by simp
  with streams_ok_update [OF ok assms(2) r(2)] show ?thesis by (simp add: order_inv_def)
qed

lemma order_inv_shrink:
  assumes "order_inv s" "streams_ok rs (pu_streams s)"
    and "\<And>k. subseq (of_source k (pu_read s @ mp_rtpIn m @ concat (map carried rs)))
       (of_source k (pu_read s @ mp_rtpIn (pu_m s) @ concat (map carried (pu_readers s))))"
  shows "order_inv (s\<lparr>pu_m := m, pu_readers := rs, pu_dropped := ds\<rparr>)"
  using assms by (auto simp: order_inv_def intro: subseq_order.trans)

lemma order_inv_step:
  assumes "order_inv s" "pump_step s t"
  shows "order_inv t"
  using assms(2)
proof (cases rule: pump_step.cases)
  case (arrive i unmarshal b p now r m)
  then show ?thesis using order_inv_arrive assms(1) by metis
next
  case (accept k)
  with assms(1) show ?thesis by (auto simp: order_inv_def streams_ok_def intro!: list_all2_appendI)
next
  case (garbage i unmarshal b now r m)
  then have "r = Reading" "m = pu_m s" by (auto simp: readStream_recv_def)
  moreover have "(pu_readers s)[i := Reading] = pu_readers s" using garbage(3) list_update_id by metis
  ultimately show ?thesis using garbage(1) assms(1) by (simp add: order_inv_def)
next
  case (accept_failed e)
  then show ?thesis using assms(1) by (simp add: order_inv_def acceptLoop_failed_def)
next
  case (evict i p)
  have ok: "streams_ok (pu_readers s) (pu_streams s)" using assms(1) by (simp add: order_inv_def)
  have p: "\<forall>x \<in> set (carried (Retry p)). p_ssrc x = pu_streams s ! i"
    using ok evict(2,3) by (auto simp: streams_ok_def list_all2_conv_all_nth)
  have "concat (map carried ((pu_readers s)[i := Retry p])) = concat (map carried (pu_readers s))"
    using evict(2,3) by (metis carried.simps(2,3) list_update_id map_update)
  moreover have "subseq (mp_rtpIn (readStream_evict (pu_m s))) (mp_rtpIn (pu_m s))"
    by (auto simp: readStream_evict_def split: list.splits)
  ultimately show ?thesis unfolding evict(1)
    using order_inv_shrink [OF assms(1) streams_ok_update [OF ok evict(2) p], of "readStream_evict (pu_m s)"]
    by (simp add: list_emb_append_mono subseq_filter)
next
  case (retry i p)
  have ok: "streams_ok (pu_readers s) (pu_streams s)" using assms(1) by (simp add: order_inv_def)
  note none = hand_update [OF ok retry(2), of Reading, simplified]
  have own: "of_source (pu_streams s ! i) (concat (map carried (pu_readers s))) = [p]"
    using hand_own [OF ok retry(2)] retry(3) by simp
  then have "p \<in> set (of_source (pu_streams s ! i) (concat (map carried (pu_readers s))))" by simp
  then have src: "p_ssrc p = pu_streams s ! i" by simp
  have "subseq (of_source k (mp_rtpIn (readStream_retry p (pu_m s)) @ concat (map carried ((pu_readers s)[i := Reading]))))
      (of_source k (mp_rtpIn (pu_m s) @ concat (map carried (pu_readers s))))" for k
    using none [of k] own src by (auto simp: readStream_retry_def)
  then show ?thesis unfolding retry(1)
    using order_inv_shrink [OF assms(1) streams_ok_update [OF ok retry(2)], of Reading "readStream_retry p (pu_m s)"]
    by (simp add: subseq_append')
next
  case (consume p m)
  then obtain q where "mp_rtpIn (pu_m s) = p # q" "m = (pu_m s)\<lparr>mp_rtpIn := q\<rparr>"
    by (auto simp: ReadRTP_def split: list.splits)
  with consume(1) assms(1) show ?thesis by (simp add: order_inv_def del: filter_append filter.simps)
qed

interpretation pump_order: safe_system pump_init pump_step order_inv
proof
  show "pump_init s \<Longrightarrow> order_inv s" for s
    by (auto simp: pump_init_def order_inv_def streams_ok_def newMediaPath_def)
  show "order_inv s \<Longrightarrow> pump_step s t \<Longrightarrow> order_inv t" for s t by (rule order_inv_step)
qed

section \<open>One reader without interference\<close>

text \<open>The loop of \<open>readStream\<close> on a sequence of datagrams that no other goroutine disturbs.\<close>

definition readStream_one :: "(u8 list \<Rightarrow> rtp_packet option) \<Rightarrow> u8 list \<times> go_time \<Rightarrow> mediaPath \<Rightarrow> mediaPath" where
  "readStream_one unmarshal d m =
     (case readStream_recv unmarshal (fst d) (snd d) m of
        (Full p, m1) \<Rightarrow> readStream_retry p (readStream_evict m1)
      | (_, m1) \<Rightarrow> m1)"

definition readStream :: "(u8 list \<Rightarrow> rtp_packet option) \<Rightarrow> (u8 list \<times> go_time) list \<Rightarrow> mediaPath \<Rightarrow> mediaPath" where
  "readStream unmarshal ds m = fold (readStream_one unmarshal) ds m"

text \<open>The packets in a sequence of datagrams, and the reference: the newest \<open>n\<close> of a list.\<close>

definition decoded :: "(u8 list \<Rightarrow> rtp_packet option) \<Rightarrow> (u8 list \<times> go_time) list \<Rightarrow> rtp_packet list" where
  "decoded unmarshal ds = List.map_filter (\<lambda>d. unmarshal (fst d)) ds"

definition newest :: "nat \<Rightarrow> 'a list \<Rightarrow> 'a list" where
  "newest n xs = drop (length xs - n) xs"

lemma newest_snoc: "0 < n \<Longrightarrow> newest n (newest n xs @ [x]) = newest n (xs @ [x])"
proof (cases "length xs < n")
  case False
  assume "0 < n"
  with False have "Suc (length xs) - n = Suc (length xs - n)" by simp
  with False \<open>0 < n\<close> show ?thesis by (simp add: newest_def Suc_diff_le)
qed (simp add: newest_def)

lemma readStream_one_None: "unmarshal (fst d) = None \<Longrightarrow> readStream_one unmarshal d m = m"
  by (simp add: readStream_one_def readStream_recv_def)

lemma readStream_one_Some:
  assumes "unmarshal (fst d) = Some p" "length (mp_rtpIn m) \<le> rtpQueueSize"
  shows "mp_rtpIn (readStream_one unmarshal d m) = newest rtpQueueSize (mp_rtpIn m @ [p]) \<and>
    mp_rxDropped (readStream_one unmarshal d m) = mp_rxDropped m + of_nat (Suc (length (mp_rtpIn m)) - rtpQueueSize)"
proof (cases "length (mp_rtpIn m) < rtpQueueSize")
  case True
  then show ?thesis using assms by (simp add: readStream_one_def readStream_recv_def newest_def Let_def)
next
  case False
  with assms(2) have len: "length (mp_rtpIn m) = rtpQueueSize" by simp
  then obtain x q where "mp_rtpIn m = x # q" by (cases "mp_rtpIn m") (auto simp: rtpQueueSize_def)
  with len assms(1) show ?thesis
    by (simp add: readStream_one_def readStream_recv_def readStream_evict_def readStream_retry_def newest_def Let_def)
qed

text \<open>An undisturbed round is a send to the bounded queue.\<close>

lemma readStream_one_enqueue:
  "unmarshal (fst d) = Some p \<Longrightarrow> length (mp_rtpIn m) \<le> rtpQueueSize \<Longrightarrow>
   mp_rtpIn (readStream_one unmarshal d m) = enqueue_rtp p (mp_rtpIn m)"
  using readStream_one_Some [of unmarshal d p m]
  by (cases "mp_rtpIn m") (auto simp: enqueue_rtp_def newest_def rtpQueueSize_def)

lemma length_newest: "length (newest n xs) = min n (length xs)"
  by (simp add: newest_def)

lemma readStream_newest:
  assumes "mp_rtpIn m = newest rtpQueueSize xs" "mp_rxDropped m = of_nat (length xs - rtpQueueSize)"
  shows "mp_rtpIn (readStream unmarshal ds m) = newest rtpQueueSize (xs @ decoded unmarshal ds) \<and>
    mp_rxDropped (readStream unmarshal ds m) = of_nat (length (xs @ decoded unmarshal ds) - rtpQueueSize)"
  using assms
proof (induction ds arbitrary: m xs)
  case (Cons d ds)
  show ?case
  proof (cases "unmarshal (fst d)")
    case None
    then show ?thesis using Cons.IH [OF Cons.prems]
      by (simp add: readStream_def decoded_def readStream_one_None List.map_filter_simps)
  next
    case (Some p)
    have len: "length (mp_rtpIn m) \<le> rtpQueueSize" using Cons.prems(1) by (simp add: length_newest)
    note one = readStream_one_Some [of unmarshal d, OF Some len]
    have "mp_rtpIn (readStream_one unmarshal d m) = newest rtpQueueSize (xs @ [p])"
      using one Cons.prems(1) newest_snoc [of rtpQueueSize xs p] by (simp add: rtpQueueSize_def)
    moreover have "length xs - rtpQueueSize + (Suc (min rtpQueueSize (length xs)) - rtpQueueSize) = Suc (length xs) - rtpQueueSize"
      by auto
    then have "mp_rxDropped (readStream_one unmarshal d m) = of_nat (length (xs @ [p]) - rtpQueueSize)"
      using one Cons.prems by (simp add: length_newest flip: of_nat_add)
    ultimately show ?thesis using Cons.IH [of "readStream_one unmarshal d m" "xs @ [p]"] Some
      by (simp add: readStream_def decoded_def List.map_filter_simps)
  qed
qed (simp add: readStream_def decoded_def List.map_filter_simps)

section \<open>Sequences of writes\<close>

text \<open>One call of \<open>TryWriteRTP\<close> with what its environment answers.\<close>

record write_call =
  wc_ready :: bool
  wc_err :: "go_error option"
  wc_open :: "go_error option"
  wc_marshal :: "rtp_packet \<Rightarrow> u8 list result"
  wc_write :: "u8 list \<Rightarrow> go_error option"
  wc_srtp :: bool
  wc_now :: go_time
  wc_packet :: rtp_packet

definition try_write :: "write_call \<Rightarrow> mediaPath \<Rightarrow> go_error option \<times> mediaPath" where
  "try_write c m = TryWriteRTP (wc_ready c) (wc_err c) (wc_open c) (wc_marshal c) (wc_write c) (wc_srtp c) (wc_now c)
     (wc_packet c) m"

fun try_writes :: "write_call list \<Rightarrow> mediaPath \<Rightarrow> (rtp_packet \<times> go_error option) list \<times> mediaPath" where
  "try_writes [] m = ([], m)"
| "try_writes (c # cs) m =
     (let (r, m1) = try_write c m; (rs, m2) = try_writes cs m1 in ((wc_packet c, r) # rs, m2))"

definition accepted :: "(rtp_packet \<times> go_error option) list \<Rightarrow> rtp_packet list" where
  "accepted rs = map fst (filter (\<lambda>r. snd r = None) rs)"

lemma try_write_tx:
  "mp_tx (snd (try_write c m)) =
     (if fst (try_write c m) = None then tx_sent (wc_packet c) (wc_now c) (mp_tx m) else mp_tx m)"
  "mp_rx (snd (try_write c m)) = mp_rx m" "mp_rtpIn (snd (try_write c m)) = mp_rtpIn m"
  by (auto simp: try_write_def TryWriteRTP_def writeRTP_def Let_def split: sum.splits option.splits)

lemma try_writes_tx:
  "tx_packets (mp_tx (snd (try_writes cs m))) = tx_packets (mp_tx m) + of_nat (length (accepted (fst (try_writes cs m)))) \<and>
   tx_octets (mp_tx (snd (try_writes cs m))) =
     tx_octets (mp_tx m) + of_nat (sum_list (map (length \<circ> p_payload) (accepted (fst (try_writes cs m)))))"
proof (induction cs arbitrary: m)
  case (Cons c cs)
  obtain r m1 where r: "try_write c m = (r, m1)" by fastforce
  obtain rs m2 where rs: "try_writes cs m1 = (rs, m2)" by fastforce
  have "mp_tx m1 = (if r = None then tx_sent (wc_packet c) (wc_now c) (mp_tx m) else mp_tx m)"
    using try_write_tx(1) [of c m] r by simp
  with Cons.IH [of m1] r rs show ?case
    by (auto simp: accepted_def tx_sent_def ac_simps)
qed (simp add: accepted_def)

section \<open>A concrete run\<close>

definition demo_codec :: "u8 list \<Rightarrow> rtp_packet option" where
  "demo_codec b = (case b of [] \<Rightarrow> None | x # _ \<Rightarrow> Some (sample_packet 7 (ucast x) 960))"

definition demo_pump :: pump_sys where
  "demo_pump = \<lparr>pu_m = newMediaPath second 1, pu_readers = [Reading], pu_streams = [7], pu_arrived = [], pu_read = [], pu_dropped = []\<rparr>"

definition demo_pump1 :: pump_sys where
  "demo_pump1 = demo_pump\<lparr>pu_m := snd (readStream_recv demo_codec [5] 0 (newMediaPath second 1)),
     pu_arrived := [sample_packet 7 5 960]\<rparr>"

lemma demo_pump_reach: "reach pump_init pump_step demo_pump"
proof -
  let ?s = "demo_pump\<lparr>pu_readers := [], pu_streams := []\<rparr>"
  have "reach pump_init pump_step ?s"
    by (rule reach_init) (auto simp: pump_init_def demo_pump_def)
  moreover have "pump_step ?s demo_pump"
    using pump_step.accept [of 7 ?s] by (simp add: demo_pump_def)
  ultimately show ?thesis by (rule reach_step)
qed

lemma demo_pump1_reach: "reach pump_init pump_step demo_pump1"
proof -
  let ?m = "newMediaPath second 1"
  have "length (mp_rtpIn ?m) < rtpQueueSize" by (simp add: newMediaPath_def rtpQueueSize_def)
  then have recv: "readStream_recv demo_codec [5] 0 ?m = (Reading, snd (readStream_recv demo_codec [5] 0 ?m))"
    by (simp add: readStream_recv_def demo_codec_def Let_def)
  have "pump_step demo_pump demo_pump1"
    using pump_step.arrive [of 0 demo_pump demo_codec "[5]" "sample_packet 7 5 960" 0 Reading] recv
    by (simp add: demo_pump_def demo_pump1_def demo_codec_def sample_packet_def)
  with demo_pump_reach show ?thesis by (rule reach_step)
qed

section \<open>Properties\<close>

text \<open>
  C7: The inbound queue accounts for every packet, whatever the interleaving of any number of
  stream readers (one per SSRC) with the consumer: each packet that arrived was handed out by
  \<open>ReadRTP\<close>, is queued, is in the hands of a reader, or was dropped; the drop counter of the
  statistics counts exactly the dropped ones (modulo \<open>2^64\<close>); the queue holds at most 256.
\<close>

theorem pump_conserves:
  assumes "reach pump_init pump_step s"
  shows "mset (pu_arrived s) = mset (pu_read s) + mset (mp_rtpIn (pu_m s)) + mset (pu_dropped s) + in_hand (pu_readers s) \<and>
    st_RxDropped (mp_Stats (pu_m s)) = of_nat (length (pu_dropped s)) \<and> length (mp_rtpIn (pu_m s)) \<le> 256"
  using pump.reach_inv [OF assms] by (simp add: pump_inv_def rtpQueueSize_def mp_Stats_def Let_def)

theorem pump_conserves_witness:
  "mset [sample_packet 7 5 960] = mset (mp_rtpIn (pu_m demo_pump1))"
  using pump_conserves [OF demo_pump1_reach] by (simp add: demo_pump1_def demo_pump_def in_hand_def)

text \<open>
  C16: The packets of one source are never reordered on their way through the queue: in every
  interleaving of the stream readers with the consumer, what \<open>ReadRTP\<close> has handed out from an
  SSRC, followed by what is still queued from it, is a subsequence of what arrived from that
  SSRC. Packets can be missing (dropped) but never change places or repeat.
\<close>

theorem pump_in_order:
  assumes "reach pump_init pump_step s"
  shows "subseq (of_source k (pu_read s @ mp_rtpIn (pu_m s))) (of_source k (pu_arrived s))"
proof -
  have "subseq (of_source k (pu_read s @ mp_rtpIn (pu_m s) @ concat (map carried (pu_readers s)))) (of_source k (pu_arrived s))"
    using pump_order.reach_inv [OF assms] by (simp add: order_inv_def)
  moreover have "subseq (of_source k (pu_read s @ mp_rtpIn (pu_m s)))
      (of_source k (pu_read s @ mp_rtpIn (pu_m s) @ concat (map carried (pu_readers s))))"
    by (simp add: prefix_imp_subseq prefixI)
  ultimately show ?thesis by (rule subseq_order.trans [rotated])
qed

theorem pump_in_order_witness: "subseq (of_source 7 (mp_rtpIn (pu_m demo_pump1))) [sample_packet 7 5 960]"
  using pump_in_order [OF demo_pump1_reach, of 7] by (simp add: demo_pump1_def demo_pump_def sample_packet_def)

text \<open>
  C17: The non-blocking send with eviction is equivalent to keeping the newest packets: when a
  reader runs undisturbed on any sequence of datagrams (a stalled consumer), the queue is
  exactly the last 256 packets that could be decoded, oldest first, and the drop counter is
  the number of the others, modulo \<open>2^64\<close>.
\<close>

theorem readStream_keeps_newest:
  "mp_rtpIn (readStream unmarshal ds (newMediaPath timeout rnd)) = newest 256 (decoded unmarshal ds) \<and>
   mp_rxDropped (readStream unmarshal ds (newMediaPath timeout rnd)) = of_nat (length (decoded unmarshal ds) - 256)"
  using readStream_newest [of "newMediaPath timeout rnd" "[]" unmarshal ds]
  by (simp add: newMediaPath_def newest_def rtpQueueSize_def)

text \<open>
  The two silence errors are told apart correctly: when the media timeout expires,
  \<open>ReadRTP\<close> reports \<open>ErrNoInboundRTP\<close> exactly if no RTP packet ever arrived on any stream, and
  the deadline error otherwise; the state is unchanged, and without a media timeout this
  branch is never taken.
\<close>

lemma ReadRTP_silence:
  assumes "reach pump_init pump_step s" "ReadRTP None True W_expired (pu_m s) = Some (r, m)"
  shows "m = pu_m s \<and> 0 < mp_mediaTimeout (pu_m s) \<and>
    (\<exists>e. r = Inl e \<and> (err_is e ErrNoInboundRTP \<longleftrightarrow> pu_arrived s = []) \<and> (err_is e ErrOSDeadline \<longleftrightarrow> pu_arrived s \<noteq> []))"
proof -
  have "mp_sawRTP (pu_m s) \<longleftrightarrow> pu_arrived s \<noteq> []"
    using pump.reach_inv [OF assms(1)] by (simp add: pump_inv_def)
  with assms(2) show ?thesis by (auto simp: ReadRTP_def split: if_splits)
qed

lemma ReadRTP_silence_example:
  "\<exists>e. fst (the (ReadRTP None True W_expired (pu_m demo_pump1))) = Inl e \<and> err_is e ErrOSDeadline"
proof -
  let ?m = "pu_m demo_pump1"
  have arr: "pu_arrived demo_pump1 \<noteq> []" by (simp add: demo_pump1_def)
  have "mp_mediaTimeout ?m = second"
    by (simp add: demo_pump1_def readStream_recv_def newMediaPath_def demo_codec_def Let_def)
  then obtain r m where "ReadRTP None True W_expired ?m = Some (r, m)"
    by (cases "mp_sawRTP ?m") (simp_all add: ReadRTP_def)
  with ReadRTP_silence [OF demo_pump1_reach this] arr show ?thesis by auto
qed

text \<open>
  The sender statistics count exactly what was sent: over any sequence of \<open>TryWriteRTP\<close>
  calls, whatever the state of the media path and the answers of the SRTP session, the packet
  and octet counters grow by the packets whose call returned nil and by their payload bytes,
  modulo \<open>2^32\<close>.
\<close>

lemma tx_counts_successes:
  "st_TxPackets (mp_Stats (snd (try_writes cs m))) =
     st_TxPackets (mp_Stats m) + of_nat (length (accepted (fst (try_writes cs m)))) \<and>
   tx_octets (mp_tx (snd (try_writes cs m))) =
     tx_octets (mp_tx m) + of_nat (sum_list (map (length \<circ> p_payload) (accepted (fst (try_writes cs m)))))"
  using try_writes_tx [of cs m] by (simp add: mp_Stats_def Let_def)

text \<open>
  The compound RTCP packet sent to Meta is well formed: a sender report if audio was sent
  and a receiver report otherwise, with the same source as the CNAME item that follows it,
  with the current counters, and with one reception block, for Meta's source, exactly if RTP
  was received. Building it changes nothing but the interval of the reception statistics.
\<close>

lemma buildRTCP_compound:
  "\<exists>head ssrc blocks. fst (buildRTCP now m) = [head, RSourceDescription ssrc ''whatsapp-connector''] \<and>
     map rr_ssrc blocks = (if rx_started (mp_rx m) then [rx_ssrc (mp_rx m)] else []) \<and>
     (if tx_hasSent (mp_tx m)
      then (\<exists>sr. head = RSenderReport sr \<and> ssrc = tx_ssrc (mp_tx m) \<and> sr_ssrc sr = ssrc \<and> sr_reports sr = blocks \<and>
             sr_ntpTime sr = ntpTime now \<and> sr_packetCount sr = tx_packets (mp_tx m) \<and> sr_octetCount sr = tx_octets (mp_tx m))
      else head = RReceiverReport ssrc blocks \<and> ssrc = mp_rtcpSSRC m) \<and>
     (\<exists>rx. snd (buildRTCP now m) = m\<lparr>mp_rx := rx\<rparr> \<and> rx_snapshot rx = rx_snapshot (mp_rx m))"
proof -
  obtain rr rx where rr: "rx_report now (mp_rx m) = (rr, rx)" by fastforce
  let ?blocks = "case rr of Some r \<Rightarrow> [r] | None \<Rightarrow> []"
  have blocks: "map rr_ssrc ?blocks = (if rx_started (mp_rx m) then [rx_ssrc (mp_rx m)] else [])"
    and snap: "rx_snapshot rx = rx_snapshot (mp_rx m)"
    using rr by (auto simp: rx_report_def Let_def rx_snapshot_def rx_expected_def rx_extMax_def split: if_splits)
  show ?thesis
    using rr blocks snap
    by (cases "tx_hasSent (mp_tx m)") (auto simp: buildRTCP_def tx_senderReport_def Let_def cname_def intro!: exI [of _ ?blocks])
qed

end
