(* ===== verification/Rebaser.thy ===== *)
theory Rebaser
  imports Rtp
begin

text \<open>
  \<open>internal/livekitbridge/rebase.go\<close>: the RTP rewriter between the two legs of a call. It
  changes SSRC and payload type and shifts sequence numbers and timestamps by an offset
  that is constant until the source changes. \<open>rewrite\<close> runs under the mutex, so it is one
  state transformer; the clock is its argument. The abstract rewriter \<open>spec_rewrite\<close>
  numbers its output with unbounded integers.
\<close>

section \<open>The rewriter\<close>

definition opusFrameTicks :: u32 where "opusFrameTicks = 960"
definition maxSeqJump :: int where "maxSeqJump = 3000"
definition maxRebaseFrames :: int where "maxRebaseFrames = 500"

record rtpRebaser =
  rb_started :: bool
  rb_outSSRC :: u32
  rb_srcSSRC :: u32
  rb_seqOff :: u16
  rb_tsOff :: u32
  rb_lastInSeq :: u16
  rb_lastOutSeq :: u16
  rb_lastOutTS :: u32
  rb_lastAt :: go_time
  rb_keepExtensions :: bool

definition rb_zero :: "bool \<Rightarrow> rtpRebaser" where
  "rb_zero keep = \<lparr>rb_started = False, rb_outSSRC = 0, rb_srcSSRC = 0, rb_seqOff = 0, rb_tsOff = 0,
     rb_lastInSeq = 0, rb_lastOutSeq = 0, rb_lastOutTS = 0, rb_lastAt = 0, rb_keepExtensions = keep\<rparr>"

text \<open>\<open>clock\<close>: the injected clock when there is one, the wall clock otherwise.\<close>

definition rb_clock :: "go_time option \<Rightarrow> go_time \<Rightarrow> go_time" where
  "rb_clock now wall = (case now of Some t \<Rightarrow> t | None \<Rightarrow> wall)"

definition seqNewer :: "u16 \<Rightarrow> u16 \<Rightarrow> bool" where
  "seqNewer a b \<longleftrightarrow> 0 < sint (a - b)"

definition absInt16 :: "u16 \<Rightarrow> int" where
  "absInt16 v = (if sint v < 0 then - sint v else sint v)"

text \<open>The frames of wall-clock silence a rebase inserts: at least one, at most
  \<open>maxRebaseFrames\<close>.\<close>

definition rb_frames :: "duration \<Rightarrow> int" where
  "rb_frames d =
     (let frames = go_quot d (20 * millisecond);
          frames = (if frames < 1 then 1 else frames)
      in if maxRebaseFrames < frames then maxRebaseFrames else frames)"

text \<open>The branches that start the first source or rebase onto a new one.\<close>

definition rb_switches :: "rtpRebaser \<Rightarrow> rtp_packet \<Rightarrow> bool" where
  "rb_switches r p \<longleftrightarrow>
     p_ssrc p \<noteq> rb_srcSSRC r \<or> maxSeqJump < absInt16 (p_sequenceNumber p - rb_lastInSeq r)"

definition rb_prepare :: "go_time \<Rightarrow> rtp_packet \<Rightarrow> rtpRebaser \<Rightarrow> rtpRebaser" where
  "rb_prepare now p r =
     (if \<not> rb_started r then
        r\<lparr>rb_started := True, rb_outSSRC := p_ssrc p XOR 0x6d2b79f5, rb_srcSSRC := p_ssrc p,
          rb_lastInSeq := p_sequenceNumber p, rb_lastOutSeq := p_sequenceNumber p,
          rb_lastOutTS := p_timestamp p\<rparr>
      else if rb_switches r p then
        let frames = rb_frames (time_sub now (rb_lastAt r));
            nextSeq = rb_lastOutSeq r + 1;
            nextTS = rb_lastOutTS r + word_of_int frames * opusFrameTicks
        in r\<lparr>rb_seqOff := nextSeq - p_sequenceNumber p, rb_tsOff := nextTS - p_timestamp p,
             rb_srcSSRC := p_ssrc p, rb_lastInSeq := p_sequenceNumber p,
             rb_lastOutSeq := nextSeq - 1, rb_lastOutTS := nextTS - opusFrameTicks\<rparr>
      else r)"

definition rb_rewrite :: "go_time \<Rightarrow> u8 \<Rightarrow> rtp_packet \<Rightarrow> rtpRebaser \<Rightarrow> rtpRebaser \<times> rtp_packet" where
  "rb_rewrite now pt p r0 =
     (let r1 = rb_prepare now p r0;
          r2 = r1\<lparr>rb_lastAt := now\<rparr>;
          outSeq = p_sequenceNumber p + rb_seqOff r2;
          outTS = p_timestamp p + rb_tsOff r2;
          r3 = (if seqNewer (p_sequenceNumber p) (rb_lastInSeq r2)
                then r2\<lparr>rb_lastInSeq := p_sequenceNumber p\<rparr> else r2);
          r4 = (if seqNewer outSeq (rb_lastOutSeq r3)
                then r3\<lparr>rb_lastOutSeq := outSeq, rb_lastOutTS := outTS\<rparr> else r3);
          q = p\<lparr>p_payloadType := pt, p_ssrc := rb_outSSRC r4, p_sequenceNumber := outSeq,
                p_timestamp := outTS\<rparr>
      in if rb_keepExtensions r4 then (r4, q)
         else (r4, q\<lparr>p_extension := False, p_extensionProfile := 0, p_extensions := []\<rparr>))"

section \<open>The interface of a rewriter\<close>

text \<open>Rewriting a stream of packets, each with the time at which it is handled.\<close>

fun rewrite_all :: "(go_time \<Rightarrow> u8 \<Rightarrow> rtp_packet \<Rightarrow> 'r \<Rightarrow> 'r \<times> rtp_packet) \<Rightarrow> u8 \<Rightarrow>
    (rtp_packet \<times> go_time) list \<Rightarrow> 'r \<Rightarrow> 'r \<times> rtp_packet list" where
  "rewrite_all rw pt [] r = (r, [])"
| "rewrite_all rw pt ((p, now) # ps) r =
     (case rw now pt p r of
        (r', q) \<Rightarrow> (case rewrite_all rw pt ps r' of (r'', qs) \<Rightarrow> (r'', q # qs)))"

text \<open>What the bridge relies on: the payload is never touched, the payload type is the one
  asked for, and once the rewriter is active it emits a single SSRC for ever.\<close>

locale rtp_rewriter =
  fixes rewrite :: "go_time \<Rightarrow> u8 \<Rightarrow> rtp_packet \<Rightarrow> 'r \<Rightarrow> 'r \<times> rtp_packet"
    and active :: "'r \<Rightarrow> bool"
    and ssrc :: "'r \<Rightarrow> u32"
  assumes rewrite_payload: "p_payload (snd (rewrite now pt p r)) = p_payload p"
    and rewrite_pt: "p_payloadType (snd (rewrite now pt p r)) = pt"
    and rewrite_ssrc: "p_ssrc (snd (rewrite now pt p r)) = ssrc (fst (rewrite now pt p r))"
    and rewrite_active: "active (fst (rewrite now pt p r))"
    and rewrite_stable: "active r \<Longrightarrow> ssrc (fst (rewrite now pt p r)) = ssrc r"
begin

lemma all_payloads: "map p_payload (snd (rewrite_all rewrite pt ps r)) = map (p_payload \<circ> fst) ps"
proof (induction ps arbitrary: r)
  case (Cons pn ps)
  obtain p now where pn: "pn = (p, now)" by (cases pn)
  with Cons.IH rewrite_payload [of now pt p r] show ?case
    by (auto split: prod.splits) (metis snd_conv)
qed simp

lemma all_pt: "q \<in> set (snd (rewrite_all rewrite pt ps r)) \<Longrightarrow> p_payloadType q = pt"
proof (induction ps arbitrary: r)
  case (Cons pn ps)
  obtain p now where pn: "pn = (p, now)" by (cases pn)
  with Cons rewrite_pt [of now pt p r] show ?case
    by (auto split: prod.splits) (metis snd_conv)
qed simp

lemma all_ssrc: "active r \<Longrightarrow> q \<in> set (snd (rewrite_all rewrite pt ps r)) \<Longrightarrow> p_ssrc q = ssrc r"
proof (induction ps arbitrary: r)
  case (Cons pn ps)
  obtain p now where pn: "pn = (p, now)" by (cases pn)
  obtain r' q' where rw: "rewrite now pt p r = (r', q')" by fastforce
  with rewrite_active [of now pt p r] rewrite_stable [OF Cons.prems(1), of now pt p]
    rewrite_ssrc [of now pt p r]
  have "active r'" "ssrc r' = ssrc r" "p_ssrc q' = ssrc r" by auto
  with Cons.IH [of r'] Cons.prems(2) show ?case
    by (auto simp: pn rw split: prod.splits)
qed simp

lemma all_ssrc_first:
  assumes "qs = snd (rewrite_all rewrite pt ps r)" "q \<in> set qs" "q' \<in> set qs"
  shows "p_ssrc q = p_ssrc q'"
proof (cases ps)
  case (Cons pn rest)
  obtain p now where pn: "pn = (p, now)" by (cases pn)
  obtain r1 q1 where rw: "rewrite now pt p r = (r1, q1)" by fastforce
  have "active r1" "p_ssrc q1 = ssrc r1"
    using rewrite_active [of now pt p r] rewrite_ssrc [of now pt p r] rw by auto
  moreover have "qs = q1 # snd (rewrite_all rewrite pt rest r1)"
    using assms(1) by (simp add: Cons pn rw split: prod.splits)
  ultimately have "p_ssrc x = ssrc r1" if "x \<in> set qs" for x
    using that all_ssrc [of r1 x pt rest] by auto
  with assms(2,3) show ?thesis by simp
qed (use assms in simp)

end

section \<open>One packet\<close>

lemma rb_frames_bounds: "1 \<le> rb_frames d \<and> rb_frames d \<le> maxRebaseFrames"
  by (simp add: rb_frames_def maxRebaseFrames_def Let_def)

lemma rb_rewrite_packet:
  assumes "rb_rewrite now pt p r = (r', q)"
  shows "p_payloadType q = pt" "p_payload q = p_payload p" "p_ssrc q = rb_outSSRC r'"
    "p_sequenceNumber q = p_sequenceNumber p + rb_seqOff r'"
    "p_timestamp q = p_timestamp p + rb_tsOff r'"
    "rb_keepExtensions r' = rb_keepExtensions r" "rb_started r'" "rb_lastAt r' = now"
    "rb_srcSSRC r' = p_ssrc p"
  using assms
  by (auto simp: rb_rewrite_def rb_prepare_def rb_switches_def Let_def split: if_splits)

lemma rb_rewrite_outSSRC: "rb_started r \<Longrightarrow> rb_outSSRC (fst (rb_rewrite now pt p r)) = rb_outSSRC r"
  by (simp add: rb_rewrite_def rb_prepare_def Let_def)

lemma rb_rewrite_extensions:
  assumes "rb_rewrite now pt p r = (r', q)"
  shows "if rb_keepExtensions r
         then p_extension q = p_extension p \<and> p_extensionProfile q = p_extensionProfile p
              \<and> p_extensions q = p_extensions p
         else \<not> p_extension q \<and> p_extensionProfile q = 0 \<and> p_extensions q = []"
proof -
  have "rb_keepExtensions (rb_prepare now p r) = rb_keepExtensions r"
    by (simp add: rb_prepare_def Let_def)
  with assms show ?thesis by (auto simp: rb_rewrite_def Let_def split: if_splits)
qed

text \<open>While the source does not change, the offsets stay.\<close>

lemma rb_rewrite_same_source:
  assumes "rb_started r" "\<not> rb_switches r p"
  shows "rb_seqOff (fst (rb_rewrite now pt p r)) = rb_seqOff r"
    and "rb_tsOff (fst (rb_rewrite now pt p r)) = rb_tsOff r"
    and "rb_srcSSRC (fst (rb_rewrite now pt p r)) = rb_srcSSRC r"
  using assms by (simp_all add: rb_rewrite_def rb_prepare_def Let_def)

section \<open>The abstract rewriter\<close>

text \<open>
  The specification reads every sequence number as the integer nearest to the highest
  input so far (\<open>sb_in\<close>) and numbers its output with integers; \<open>sb_out\<close> is the highest
  output so far.
\<close>

record rb_spec =
  sb_src :: u32
  sb_in :: int
  sb_off :: int
  sb_out :: int

definition nearest :: "int \<Rightarrow> u16 \<Rightarrow> int" where
  "nearest m q = m + sint (q - word_of_int m)"

definition spec_first :: "rtp_packet \<Rightarrow> rb_spec" where
  "spec_first p = \<lparr>sb_src = p_ssrc p, sb_in = uint (p_sequenceNumber p), sb_off = 0,
     sb_out = uint (p_sequenceNumber p)\<rparr>"

definition spec_switches :: "rb_spec \<Rightarrow> rtp_packet \<Rightarrow> bool" where
  "spec_switches a p \<longleftrightarrow>
     p_ssrc p \<noteq> sb_src a \<or> maxSeqJump < \<bar>nearest (sb_in a) (p_sequenceNumber p) - sb_in a\<bar>"

text \<open>The next state and the number given to the packet.\<close>

definition spec_rewrite :: "rtp_packet \<Rightarrow> rb_spec \<Rightarrow> rb_spec \<times> int" where
  "spec_rewrite p a =
     (if spec_switches a p then
        (\<lparr>sb_src = p_ssrc p, sb_in = uint (p_sequenceNumber p),
          sb_off = sb_out a + 1 - uint (p_sequenceNumber p), sb_out = sb_out a + 1\<rparr>, sb_out a + 1)
      else
        let e = nearest (sb_in a) (p_sequenceNumber p); n = e + sb_off a
        in (a\<lparr>sb_in := max (sb_in a) e, sb_out := max (sb_out a) n\<rparr>, n))"

fun spec_run :: "rtp_packet list \<Rightarrow> rb_spec \<Rightarrow> rb_spec \<times> int list" where
  "spec_run [] a = (a, [])"
| "spec_run (p # ps) a =
     (case spec_rewrite p a of
        (a', n) \<Rightarrow> (case spec_run ps a' of (a'', ns) \<Rightarrow> (a'', n # ns)))"

definition rb_tracks :: "rtpRebaser \<Rightarrow> rb_spec \<Rightarrow> bool" where
  "rb_tracks r a \<longleftrightarrow> rb_started r \<and> rb_srcSSRC r = sb_src a \<and>
     rb_lastInSeq r = word_of_int (sb_in a) \<and> rb_seqOff r = word_of_int (sb_off a) \<and>
     rb_lastOutSeq r = word_of_int (sb_out a) \<and> sb_out a = sb_in a + sb_off a"

lemma word_of_nearest: "word_of_int (nearest m q) = q"
  by (simp add: nearest_def)

lemma absInt16_nearest: "absInt16 (q - word_of_int m) = \<bar>nearest m q - m\<bar>"
  by (simp add: absInt16_def nearest_def)

lemma rb_switches_spec: "rb_tracks r a \<Longrightarrow> rb_switches r p = spec_switches a p"
  by (simp add: rb_switches_def spec_switches_def rb_tracks_def absInt16_nearest)

lemma seqNewer_nearest: "seqNewer q (word_of_int m) \<longleftrightarrow> m < nearest m q"
  by (simp add: seqNewer_def nearest_def)

lemma seqNewer_shift: "seqNewer (q + k) (word_of_int m + k) \<longleftrightarrow> m < nearest m q"
  by (simp add: seqNewer_def nearest_def)

lemma seqNewer_next: "seqNewer (x + 1) x" "seqNewer (x + (y + 1)) (x + y)" "\<not> seqNewer x x"
  by (simp_all add: seqNewer_def)

lemma rb_tracks_first:
  assumes "\<not> rb_started r" "rb_seqOff r = 0"
  shows "rb_tracks (fst (rb_rewrite now pt p r)) (spec_first p)"
  using assms
  by (simp add: rb_tracks_def spec_first_def rb_rewrite_def rb_prepare_def Let_def seqNewer_next)

lemma rb_tracks_switch:
  assumes tr: "rb_tracks r a" and sw: "rb_switches r p"
  shows "rb_tracks (fst (rb_rewrite now pt p r)) (fst (spec_rewrite p a))
    \<and> p_sequenceNumber (snd (rb_rewrite now pt p r)) = word_of_int (snd (spec_rewrite p a))"
proof -
  have "rb_started r" "spec_switches a p" using tr sw rb_switches_spec by (auto simp: rb_tracks_def)
  with tr sw show ?thesis
    by (simp add: rb_tracks_def rb_rewrite_def rb_prepare_def spec_rewrite_def Let_def seqNewer_next)
qed

lemma rb_tracks_same:
  assumes tr: "rb_tracks r a" and sw: "\<not> rb_switches r p"
  shows "rb_tracks (fst (rb_rewrite now pt p r)) (fst (spec_rewrite p a))
    \<and> p_sequenceNumber (snd (rb_rewrite now pt p r)) = word_of_int (snd (spec_rewrite p a))"
proof -
  let ?e = "nearest (sb_in a) (p_sequenceNumber p)"
  have st: "rb_started r" "\<not> spec_switches a p" using tr sw rb_switches_spec by (auto simp: rb_tracks_def)
  have q: "word_of_int ?e = p_sequenceNumber p" by (rule word_of_nearest)
  consider "sb_in a < ?e" | "?e = sb_in a" | "?e < sb_in a" by linarith
  then show ?thesis
  proof cases
    case 1
    with tr sw st q show ?thesis
      by (simp add: rb_tracks_def rb_rewrite_def rb_prepare_def spec_rewrite_def Let_def
          seqNewer_nearest seqNewer_shift max_absorb2)
  next
    case 2
    with q have "word_of_int (sb_in a) = p_sequenceNumber p" by simp
    with 2 tr sw st show ?thesis
      by (simp add: rb_tracks_def rb_rewrite_def rb_prepare_def spec_rewrite_def Let_def seqNewer_next)
  next
    case 3
    with tr sw st q show ?thesis
      by (simp add: rb_tracks_def rb_rewrite_def rb_prepare_def spec_rewrite_def Let_def
          seqNewer_nearest seqNewer_shift max_absorb1)
  qed
qed

lemma rb_tracks_step:
  "rb_tracks r a \<Longrightarrow>
   rb_tracks (fst (rb_rewrite now pt p r)) (fst (spec_rewrite p a))
   \<and> p_sequenceNumber (snd (rb_rewrite now pt p r)) = word_of_int (snd (spec_rewrite p a))"
  by (cases "rb_switches r p") (auto dest: rb_tracks_switch rb_tracks_same)

lemma rb_run_refines:
  "rb_tracks r a \<Longrightarrow>
   rb_tracks (fst (rewrite_all rb_rewrite pt ps r)) (fst (spec_run (map fst ps) a))
   \<and> map p_sequenceNumber (snd (rewrite_all rb_rewrite pt ps r)) = map word_of_int (snd (spec_run (map fst ps) a))"
proof (induction ps arbitrary: r a)
  case (Cons pn ps)
  obtain p now where pn: "pn = (p, now)" by (cases pn)
  obtain r' q where rw: "rb_rewrite now pt p r = (r', q)" by fastforce
  obtain a' n where sp: "spec_rewrite p a = (a', n)" by fastforce
  from rb_tracks_step [OF Cons.prems, of now pt p] rw sp
  have "rb_tracks r' a'" "p_sequenceNumber q = word_of_int n" by auto
  with Cons.IH [of r' a'] show ?case
    by (auto simp: pn rw sp split: prod.splits)
qed simp

interpretation rb: rtp_rewriter rb_rewrite rb_started rb_outSSRC
  by unfold_locales (simp_all add: rb_rewrite_outSSRC rb_rewrite_def rb_prepare_def Let_def)

section \<open>Properties\<close>

lemma spec_rewrite_out: "sb_out (fst (spec_rewrite p a)) = max (sb_out a) (snd (spec_rewrite p a))"
  by (simp add: spec_rewrite_def Let_def)

lemma spec_run_Cons:
  "spec_run (p # ps) a =
     (fst (spec_run ps (fst (spec_rewrite p a))),
      snd (spec_rewrite p a) # snd (spec_run ps (fst (spec_rewrite p a))))"
  by (simp split: prod.splits)

lemma spec_run_out: "sb_out (fst (spec_run ps a)) = fold max (snd (spec_run ps a)) (sb_out a)"
proof (induction ps arbitrary: a)
  case (Cons p ps)
  then show ?case
    by (simp only: spec_run_Cons fst_conv snd_conv fold_Cons o_apply spec_rewrite_out max.commute)
qed simp

lemma rewrite_all_first:
  "rewrite_all rb_rewrite pt ((p, t) # ps) r =
     (fst (rewrite_all rb_rewrite pt ps (fst (rb_rewrite t pt p r))),
      snd (rb_rewrite t pt p r) # snd (rewrite_all rb_rewrite pt ps (fst (rb_rewrite t pt p r))))"
  by (simp split: prod.splits)

lemma rb_zero_first:
  "rb_tracks (fst (rb_rewrite t pt p (rb_zero keep))) (spec_first p)"
  "p_sequenceNumber (snd (rb_rewrite t pt p (rb_zero keep))) = p_sequenceNumber p"
  by (rule rb_tracks_first; simp add: rb_zero_def)
     (simp add: rb_rewrite_def rb_prepare_def rb_zero_def Let_def)

text \<open>
  C5: the rewriter implements the unbounded specification: on every stream, whatever the
  mix of losses, reorderings, duplicates, wrap-arounds, source changes and sender restarts,
  the 16-bit sequence numbers it emits are the low bits of the specification's numbers.
\<close>

theorem rebase_refines:
  "map p_sequenceNumber (snd (rewrite_all rb_rewrite pt ((p, t) # ps) (rb_zero keep))) =
   map word_of_int (uint (p_sequenceNumber p) # snd (spec_run (map fst ps) (spec_first p)))"
proof -
  have "map p_sequenceNumber (snd (rewrite_all rb_rewrite pt ps (fst (rb_rewrite t pt p (rb_zero keep))))) =
      map word_of_int (snd (spec_run (map fst ps) (spec_first p)))"
    using rb_run_refines [OF rb_zero_first(1)] by blast
  then show ?thesis
    by (simp only: rewrite_all_first snd_conv list.map rb_zero_first(2) word_of_int_uint)
qed

lemma rb_outSSRC_run:
  "rb_started r \<Longrightarrow> rb_outSSRC (fst (rewrite_all rb_rewrite pt ps r)) = rb_outSSRC r"
proof (induction ps arbitrary: r)
  case (Cons pn ps)
  obtain p t where pn: "pn = (p, t)" by (cases pn)
  from Cons.IH [OF rb.rewrite_active, of t pt p r] rb_rewrite_outSSRC [OF Cons.prems, of t pt p]
  show ?case by (simp only: pn rewrite_all_first fst_conv)
qed simp

text \<open>The last emitted position is the position of an emitted packet.\<close>

definition position :: "rtp_packet \<Rightarrow> u16 \<times> u32" where
  "position q = (p_sequenceNumber q, p_timestamp q)"

lemma rb_last_emitted:
  "rb_started r \<Longrightarrow>
   (rb_lastOutSeq (fst (rb_rewrite t pt p r)), rb_lastOutTS (fst (rb_rewrite t pt p r)))
     \<in> {(rb_lastOutSeq r, rb_lastOutTS r), position (snd (rb_rewrite t pt p r))}"
  by (simp add: rb_rewrite_def rb_prepare_def position_def Let_def seqNewer_next)

lemma insert_one_of: "x \<in> {a, b} \<Longrightarrow> y \<in> insert x S \<Longrightarrow> y \<in> insert a (insert b S)"
  by auto

lemma rb_last_emitted_run:
  "rb_started r \<Longrightarrow>
   (rb_lastOutSeq (fst (rewrite_all rb_rewrite pt ps r)), rb_lastOutTS (fst (rewrite_all rb_rewrite pt ps r)))
     \<in> insert (rb_lastOutSeq r, rb_lastOutTS r) (position ` set (snd (rewrite_all rb_rewrite pt ps r)))"
proof (induction ps arbitrary: r)
  case (Cons pn ps)
  obtain p t where pn: "pn = (p, t)" by (cases pn)
  let ?r = "fst (rb_rewrite t pt p r)"
  have "(rb_lastOutSeq (fst (rewrite_all rb_rewrite pt ps ?r)), rb_lastOutTS (fst (rewrite_all rb_rewrite pt ps ?r)))
     \<in> insert (rb_lastOutSeq ?r, rb_lastOutTS ?r) (position ` set (snd (rewrite_all rb_rewrite pt ps ?r)))"
    by (rule Cons.IH) (rule rb.rewrite_active)
  with rb_last_emitted [OF Cons.prems, of t pt p] show ?case
    unfolding pn rewrite_all_first fst_conv snd_conv list.set image_insert by (rule insert_one_of)
qed simp

lemma rb_zero_last:
  "(rb_lastOutSeq (fst (rb_rewrite t pt p (rb_zero keep))), rb_lastOutTS (fst (rb_rewrite t pt p (rb_zero keep))))
     = position (snd (rb_rewrite t pt p (rb_zero keep)))"
  by (simp add: rb_rewrite_def rb_prepare_def rb_zero_def position_def Let_def seqNewer_next)

text \<open>
  C24: when the source changes (another SSRC, or a jump of more than 3000 sequence numbers),
  the next packet continues the output: same SSRC, the sequence number right after the
  highest one emitted so far, and a timestamp 1 to 500 frames of 960 ticks after that of a
  packet emitted with this highest sequence number.
\<close>

theorem rebase_continues:
  assumes run: "rewrite_all rb_rewrite pt ((p0, t0) # ps) (rb_zero keep) = (r, qs)"
    and sw: "rb_switches r p"
    and rw: "rb_rewrite now pt p r = (r', q)"
    and ns: "ns = snd (spec_run (map fst ps) (spec_first p0))"
  shows "p_sequenceNumber q = word_of_int (fold max ns (uint (p_sequenceNumber p0)) + 1)
    \<and> (\<forall>q0 \<in> set qs. p_ssrc q = p_ssrc q0)
    \<and> (\<exists>q0 \<in> set qs. \<exists>frames. 1 \<le> frames \<and> frames \<le> maxRebaseFrames
         \<and> p_sequenceNumber q = p_sequenceNumber q0 + 1
         \<and> p_timestamp q = p_timestamp q0 + word_of_int frames * opusFrameTicks)"
proof -
  let ?r1 = "fst (rb_rewrite t0 pt p0 (rb_zero keep))"
  let ?a = "fst (spec_run (map fst ps) (spec_first p0))"
  have r: "r = fst (rewrite_all rb_rewrite pt ps ?r1)"
    and qs: "qs = snd (rb_rewrite t0 pt p0 (rb_zero keep)) # snd (rewrite_all rb_rewrite pt ps ?r1)"
    using run by (simp_all only: rewrite_all_first prod.inject)
  have tr: "rb_tracks r ?a"
    unfolding r using rb_run_refines [OF rb_zero_first(1)] by blast
  have st: "rb_started r" using tr by (simp add: rb_tracks_def)
  have seq: "p_sequenceNumber q = rb_lastOutSeq r + 1"
    and ts: "p_timestamp q = rb_lastOutTS r + word_of_int (rb_frames (time_sub now (rb_lastAt r))) * opusFrameTicks"
    using rw sw st by (auto simp: rb_rewrite_def rb_prepare_def Let_def split: if_splits)
  have "sb_out ?a = fold max ns (uint (p_sequenceNumber p0))"
    by (simp add: spec_run_out ns spec_first_def)
  with tr seq have 1: "p_sequenceNumber q = word_of_int (fold max ns (uint (p_sequenceNumber p0)) + 1)"
    by (simp add: rb_tracks_def)
  have "p_ssrc q = rb_outSSRC r"
    using rb.rewrite_ssrc [of now pt p r] rb_rewrite_outSSRC [OF st, of now pt p] rw by simp
  moreover have "rb_outSSRC r = rb_outSSRC ?r1"
    using rb_outSSRC_run [of ?r1 pt ps] by (simp add: r rb.rewrite_active)
  ultimately have 2: "\<forall>q0 \<in> set qs. p_ssrc q = p_ssrc q0"
    using rb.all_ssrc [of ?r1 _ pt ps] rb.rewrite_ssrc [of t0 pt p0 "rb_zero keep"]
    by (auto simp: qs rb.rewrite_active)
  have "(rb_lastOutSeq r, rb_lastOutTS r) \<in> position ` set qs"
    using rb_last_emitted_run [OF rb.rewrite_active, of pt ps t0 pt p0 "rb_zero keep"]
    unfolding r qs rb_zero_last by auto
  then obtain q0 where "q0 \<in> set qs" "p_sequenceNumber q0 = rb_lastOutSeq r" "p_timestamp q0 = rb_lastOutTS r"
    by (auto simp: position_def)
  moreover note rb_frames_bounds [of "time_sub now (rb_lastAt r)"]
  ultimately have "\<exists>q0 \<in> set qs. \<exists>frames. 1 \<le> frames \<and> frames \<le> maxRebaseFrames
         \<and> p_sequenceNumber q = p_sequenceNumber q0 + 1
         \<and> p_timestamp q = p_timestamp q0 + word_of_int frames * opusFrameTicks"
    using seq ts by metis
  with 1 2 show ?thesis by blast
qed

theorem rebase_continues_witness:
  "p_sequenceNumber (snd (rb_rewrite (100 * millisecond) 111 (sample_packet 99 40000 123456)
      (fst (rewrite_all rb_rewrite 111 [(sample_packet 7 10 5000, 0), (sample_packet 7 11 5960, 0)] (rb_zero False))))) = 12"
proof -
  let ?ps = "[(sample_packet 7 11 5960, 0)]"
  let ?run = "rewrite_all rb_rewrite 111 ((sample_packet 7 10 5000, 0) # ?ps) (rb_zero False)"
  let ?p = "sample_packet 99 40000 123456"
  have "rb_switches (fst ?run) ?p" by code_simp
  moreover have "snd (spec_run (map fst ?ps) (spec_first (sample_packet 7 10 5000))) = [11]" by code_simp
  ultimately show ?thesis
    using rebase_continues [of 111 "sample_packet 7 10 5000" 0 ?ps False "fst ?run" "snd ?run" ?p
        "100 * millisecond" "fst (rb_rewrite (100 * millisecond) 111 ?p (fst ?run))"
        "snd (rb_rewrite (100 * millisecond) 111 ?p (fst ?run))" "[11]"]
    by (simp add: sample_packet_def)
qed

text \<open>The packets are all of the current source, each within the jump limit of the highest
  sequence number when it is handled.\<close>

fun one_source :: "u8 \<Rightarrow> (rtp_packet \<times> go_time) list \<Rightarrow> rtpRebaser \<Rightarrow> bool" where
  "one_source pt [] r = True"
| "one_source pt ((p, t) # ps) r =
     (\<not> rb_switches r p \<and> one_source pt ps (fst (rb_rewrite t pt p r)))"

text \<open>
  C25: as long as the source does not change, every packet is shifted by one constant
  sequence offset and one constant timestamp offset. So a lost packet stays a gap of the
  same size, a reordered packet stays reordered and a duplicate stays a duplicate.
\<close>

theorem rebase_constant_offset:
  assumes "rb_started r" and "one_source pt ps r"
  shows "map position (snd (rewrite_all rb_rewrite pt ps r)) =
     map (\<lambda>(p, t). (p_sequenceNumber p + rb_seqOff r, p_timestamp p + rb_tsOff r)) ps"
  using assms
proof (induction ps arbitrary: r)
  case (Cons pn ps)
  obtain p t where pn: "pn = (p, t)" by (cases pn)
  let ?r = "fst (rb_rewrite t pt p r)"
  have off: "rb_seqOff ?r = rb_seqOff r" "rb_tsOff ?r = rb_tsOff r"
    using Cons.prems by (auto simp: pn intro: rb_rewrite_same_source)
  have "map position (snd (rewrite_all rb_rewrite pt ps ?r)) =
      map (\<lambda>(p, t). (p_sequenceNumber p + rb_seqOff r, p_timestamp p + rb_tsOff r)) ps"
    using Cons.IH [of ?r] Cons.prems by (simp add: pn off rb.rewrite_active)
  moreover have "position (snd (rb_rewrite t pt p r)) =
      (p_sequenceNumber p + rb_seqOff r, p_timestamp p + rb_tsOff r)"
    using rb_rewrite_packet(4,5) [of t pt p r ?r "snd (rb_rewrite t pt p r)"] off
    by (simp add: position_def)
  ultimately show ?case
    unfolding pn rewrite_all_first by simp
qed simp

theorem rebase_constant_offset_witness:
  "map position (snd (rewrite_all rb_rewrite 111
      [(sample_packet 7 2 1920, 0), (sample_packet 7 4 3840, 0), (sample_packet 7 3 2880, 0), (sample_packet 7 3 2880, 0)]
      (fst (rb_rewrite 0 111 (sample_packet 7 1 960) (rb_zero False))))) =
   [(2, 1920), (4, 3840), (3, 2880), (3, 2880)]"
proof -
  let ?r = "fst (rb_rewrite 0 111 (sample_packet 7 1 960) (rb_zero False))"
  let ?ps = "[(sample_packet 7 2 1920, 0), (sample_packet 7 4 3840, 0), (sample_packet 7 3 2880, 0), (sample_packet 7 3 2880, 0)]"
  have "one_source 111 ?ps ?r" by code_simp
  moreover have "rb_seqOff ?r = 0" "rb_tsOff ?r = 0" by code_simp+
  ultimately show ?thesis
    using rebase_constant_offset [of ?r 111 ?ps] rb.rewrite_active
    by (simp add: sample_packet_def)
qed

lemma rb_strips_extensions:
  "\<not> rb_keepExtensions r \<Longrightarrow>
   list_all (\<lambda>q. \<not> p_extension q \<and> p_extensionProfile q = 0 \<and> p_extensions q = [])
      (snd (rewrite_all rb_rewrite pt ps r))"
proof (induction ps arbitrary: r)
  case (Cons pn ps)
  obtain p t where pn: "pn = (p, t)" by (cases pn)
  obtain r' q where rw: "rb_rewrite t pt p r = (r', q)" by fastforce
  have "\<not> rb_keepExtensions r'" using Cons.prems rb_rewrite_packet(6) [OF rw] by simp
  with Cons.IH Cons.prems rb_rewrite_extensions [OF rw] show ?case
    unfolding pn rewrite_all_first rw by simp
qed simp

text \<open>
  On the way to Meta (\<open>keepExtensions\<close> unset) every packet leaves as a plain RTP
  packet: the payloads unchanged and in order, the negotiated payload type, one SSRC for
  the whole call, no header extension.
\<close>

lemma rebase_plain_packets:
  "map p_payload (snd (rewrite_all rb_rewrite pt ps (rb_zero False))) = map (p_payload \<circ> fst) ps
   \<and> list_all (\<lambda>q. p_payloadType q = pt \<and> \<not> p_extension q \<and> p_extensionProfile q = 0 \<and> p_extensions q = [])
       (snd (rewrite_all rb_rewrite pt ps (rb_zero False)))
   \<and> (\<exists>x. list_all (\<lambda>q. p_ssrc q = x) (snd (rewrite_all rb_rewrite pt ps (rb_zero False))))"
proof -
  let ?qs = "snd (rewrite_all rb_rewrite pt ps (rb_zero False))"
  have "p_ssrc q = p_ssrc (hd ?qs)" if q: "q \<in> set ?qs" for q
  proof (rule rb.all_ssrc_first [OF refl q])
    show "hd ?qs \<in> set ?qs" using length_pos_if_in_set [OF q] by (intro hd_in_set) simp
  qed
  then have "list_all (\<lambda>q. p_ssrc q = p_ssrc (hd ?qs)) ?qs" by (simp only: list_all_iff) blast
  moreover have "list_all (\<lambda>q. p_payloadType q = pt) ?qs"
    using rb.all_pt [of _ pt ps "rb_zero False"] by (auto simp: list_all_iff)
  ultimately show ?thesis
    using rb_strips_extensions [of "rb_zero False" pt ps] rb.all_payloads [of pt ps "rb_zero False"]
    by (auto simp: rb_zero_def list_all_iff)
qed

end
