(* ===== verification/Bridge.thy ===== *)
theory Bridge
  imports Rebaser GoStrings
begin

text \<open>
  \<open>internal/livekitbridge/bridge.go\<close>: the LiveKit side of a call. \<open>Connect\<close> joins the room
  and publishes a track, the room callbacks end the call or release the active track,
  \<open>forwardRemote\<close> carries agent audio to Meta, \<open>WriteFromMeta\<close> carries caller audio to the
  room. LiveKit's SDK appears as results and events chosen by the environment.
\<close>

section \<open>State\<close>

text \<open>\<open>br_done\<close> counts how often the channel \<open>done\<close> was closed (a second time would panic).\<close>

record bridge =
  br_payloadType :: u8
  br_room :: bool
  br_local :: bool
  br_done :: nat
  br_closeOnce :: bool
  br_activeTrack :: string
  br_outbound :: rtpRebaser
  br_inbound :: rtpRebaser
  br_txPackets :: u64
  br_txDropped :: u64
  br_txWriteErrors :: u64
  br_rxPackets :: u64

definition newBridge :: "u8 \<Rightarrow> bridge" where
  "newBridge pt = \<lparr>br_payloadType = pt, br_room = False, br_local = False, br_done = 0, br_closeOnce = False,
     br_activeTrack = [], br_outbound = rb_zero False, br_inbound = rb_zero False, br_txPackets = 0,
     br_txDropped = 0, br_txWriteErrors = 0, br_rxPackets = 0\<rparr>"

record bridgeStats =
  bs_TxPackets :: u64
  bs_TxDropped :: u64
  bs_TxWriteErrors :: u64
  bs_RxPackets :: u64

definition bridge_Stats :: "bridge \<Rightarrow> bridgeStats" where
  "bridge_Stats b = \<lparr>bs_TxPackets = br_txPackets b, bs_TxDropped = br_txDropped b,
     bs_TxWriteErrors = br_txWriteErrors b, bs_RxPackets = br_rxPackets b\<rparr>"

section \<open>Ending\<close>

definition closeDone :: "bridge \<Rightarrow> bridge" where
  "closeDone b = (if br_closeOnce b then b else b\<lparr>br_closeOnce := True, br_done := br_done b + 1\<rparr>)"

text \<open>\<open>Close\<close>: the flag says whether the room is disconnected.\<close>

definition bridge_Close :: "bridge \<Rightarrow> bool \<times> bridge" where
  "bridge_Close b = (br_room b, closeDone b)"

datatype participantKind = ParticipantStandard | ParticipantIngress | ParticipantEgress | ParticipantSIP
  | ParticipantAgent | ParticipantConnector

definition endsCallOnDeparture :: "participantKind \<Rightarrow> bool" where
  "endsCallOnDeparture k \<longleftrightarrow> k = ParticipantAgent"

text \<open>The room callbacks; the flag says whether \<open>conf.OnDisconnected\<close> is called.\<close>

definition onDisconnected :: "bridge \<Rightarrow> bool \<times> bridge" where
  "onDisconnected b = (True, closeDone b)"

definition onParticipantDisconnected :: "participantKind \<Rightarrow> bridge \<Rightarrow> bool \<times> bridge" where
  "onParticipantDisconnected k b = (if \<not> endsCallOnDeparture k then (False, b) else (True, closeDone b))"

section \<open>Connecting\<close>

text \<open>What token building, joining, creating and publishing the track answer; the result, and
  whether the room was joined and whether it was disconnected again.\<close>

definition bridge_Connect :: "u8 \<Rightarrow> go_error option \<Rightarrow> go_error option \<Rightarrow> go_error option \<Rightarrow> go_error option \<Rightarrow>
    bridge result \<times> bool \<times> bool" where
  "bridge_Connect pt token joined track publish =
     (let b = newBridge pt in
      case token of Some e \<Rightarrow> (Inl e, False, False) | None \<Rightarrow>
     (case joined of Some e \<Rightarrow> (Inl e, False, False) | None \<Rightarrow>
     (let b1 = b\<lparr>br_room := True\<rparr> in
      case track of Some e \<Rightarrow> (Inl e, True, True) | None \<Rightarrow>
     (case publish of Some e \<Rightarrow> (Inl e, True, True) | None \<Rightarrow>
      (Inr (b1\<lparr>br_local := True\<rparr>), True, False)))))"

section \<open>Audio from Meta\<close>

text \<open>\<open>ans\<close>: what writing to the LiveKit track answers. The result, the packets handed to the track,
  and the bridge afterwards.\<close>

definition WriteFromMeta ::
    "go_error option \<Rightarrow> go_time \<Rightarrow> rtp_packet \<Rightarrow> bridge \<Rightarrow> go_error option \<times> rtp_packet list \<times> bridge" where
  "WriteFromMeta ans now p b =
     (if \<not> br_local b then (Some ErrClosedPipe, [], b)
      else
        let r0 = (br_inbound b)\<lparr>rb_keepExtensions := True\<rparr>;
            (r, q) = rb_rewrite now (p_payloadType p) p r0
        in (ans, [q], b\<lparr>br_rxPackets := br_rxPackets b + 1, br_inbound := r\<rparr>))"

section \<open>Audio to Meta\<close>

definition isFatalWrite :: "go_error \<Rightarrow> bool" where
  "isFatalWrite e \<longleftrightarrow> err_is e ErrEOF \<or> err_is e ErrClosedPipe \<or> err_is e ErrNetClosed \<or>
     err_is e ErrCanceled \<or> err_is e ErrDeadlineExceeded"

definition countWriteFailure :: "go_error \<Rightarrow> bridge \<Rightarrow> bridge" where
  "countWriteFailure e b =
     (if err_is e ErrBridgeNotReady then b\<lparr>br_txDropped := br_txDropped b + 1\<rparr>
      else b\<lparr>br_txWriteErrors := br_txWriteErrors b + 1\<rparr>)"

text \<open>The first and the deferred critical section of \<open>forwardRemote\<close>, and the callback for an
  unsubscribed track.\<close>

definition forward_start :: "string \<Rightarrow> bridge \<Rightarrow> bool \<times> bridge" where
  "forward_start tid b = (if br_activeTrack b \<noteq> [] then (False, b) else (True, b\<lparr>br_activeTrack := tid\<rparr>))"

definition release_track :: "string \<Rightarrow> bridge \<Rightarrow> bridge" where
  "release_track tid b = (if br_activeTrack b = tid then b\<lparr>br_activeTrack := []\<rparr> else b)"

definition onTrackUnsubscribed :: "string \<Rightarrow> bridge \<Rightarrow> bridge" where
  "onTrackUnsubscribed tid b = release_track tid b"

text \<open>The callbacks for a published and for a subscribed track: whether to subscribe, and whether a
  forwarder starts. \<open>mimeOpus\<close> is \<open>webrtc.MimeTypeOpus\<close>.\<close>

datatype trackKind = TrackKindAudio | TrackKindVideo

definition onTrackPublished :: "trackKind \<Rightarrow> bool" where
  "onTrackPublished kind \<longleftrightarrow> kind = TrackKindAudio"

definition onTrackSubscribed :: "string \<Rightarrow> string \<Rightarrow> string \<Rightarrow> bridge \<Rightarrow> bool \<times> bridge" where
  "onTrackSubscribed mimeOpus mime tid b = (if equal_fold mime mimeOpus then forward_start tid b else (False, b))"

text \<open>One packet of the loop: \<open>w\<close> is what \<open>WriteToMeta\<close> answers for the rewritten packet. The
  flag says whether the loop goes on.\<close>

definition forward_packet :: "go_time \<Rightarrow> rtp_packet \<Rightarrow> go_error option \<Rightarrow> bridge \<Rightarrow> bool \<times> bridge \<times> rtp_packet" where
  "forward_packet now p w b =
     (let (r, q) = rb_rewrite now (br_payloadType b) p (br_outbound b);
          b1 = b\<lparr>br_outbound := r\<rparr>
      in (case w of
            Some e \<Rightarrow> if isFatalWrite e then (False, b1, q) else (True, countWriteFailure e b1, q)
          | None \<Rightarrow> (True, b1\<lparr>br_txPackets := br_txPackets b1 + 1\<rparr>, q)))"

text \<open>The loop on the clock, the results of \<open>track.ReadRTP\<close> and the answers of \<open>WriteToMeta\<close>,
  round by round. The packets offered to Meta are collected.\<close>

type_synonym forward_event = "go_time \<times> rtp_packet result \<times> go_error option"

fun forward_loop :: "forward_event list \<Rightarrow> bridge \<Rightarrow> bridge \<times> rtp_packet list" where
  "forward_loop [] b = (b, [])"
| "forward_loop ((now, Inl e, w) # evs) b = (b, [])"
| "forward_loop ((now, Inr p, w) # evs) b =
     (case forward_packet now p w b of
        (go, b1, q) \<Rightarrow>
          if go then (case forward_loop evs b1 of (b2, qs) \<Rightarrow> (b2, q # qs)) else (b1, [q]))"

definition forwardRemote :: "string \<Rightarrow> forward_event list \<Rightarrow> bridge \<Rightarrow> bridge \<times> rtp_packet list" where
  "forwardRemote tid evs b =
     (let (ok, b1) = forward_start tid b
      in if \<not> ok then (b1, [])
         else (let (b2, qs) = forward_loop evs b1 in (release_track tid b2, qs)))"

interpretation bridge_done: one_shot closeDone br_closeOnce
  by unfold_locales (simp_all add: closeDone_def)

section \<open>The rounds a forwarder makes\<close>

text \<open>The rounds up to and including the first fatal write, or up to the first failed read.\<close>

fun rounds_of :: "forward_event list \<Rightarrow> (go_time \<times> rtp_packet \<times> go_error option) list" where
  "rounds_of [] = []"
| "rounds_of ((now, Inl e, w) # evs) = []"
| "rounds_of ((now, Inr p, w) # evs) =
     (if (case w of Some e \<Rightarrow> isFatalWrite e | None \<Rightarrow> False) then [(now, p, w)] else (now, p, w) # rounds_of evs)"

definition sent_ok :: "go_time \<times> rtp_packet \<times> go_error option \<Rightarrow> bool" where
  "sent_ok x \<longleftrightarrow> snd (snd x) = None"

definition not_ready :: "go_time \<times> rtp_packet \<times> go_error option \<Rightarrow> bool" where
  "not_ready x = (case snd (snd x) of Some e \<Rightarrow> \<not> isFatalWrite e \<and> err_is e ErrBridgeNotReady | None \<Rightarrow> False)"

definition send_failed :: "go_time \<times> rtp_packet \<times> go_error option \<Rightarrow> bool" where
  "send_failed x = (case snd (snd x) of Some e \<Rightarrow> \<not> isFatalWrite e \<and> \<not> err_is e ErrBridgeNotReady | None \<Rightarrow> False)"

definition fatal :: "go_time \<times> rtp_packet \<times> go_error option \<Rightarrow> bool" where
  "fatal x = (case snd (snd x) of Some e \<Rightarrow> isFatalWrite e | None \<Rightarrow> False)"

lemmas outcome_defs = sent_ok_def not_ready_def send_failed_def fatal_def

text \<open>Every round has exactly one of the four outcomes.\<close>

lemma outcomes_partition:
  "length xs = length (filter sent_ok xs) + length (filter not_ready xs) + length (filter send_failed xs) +
     length (filter fatal xs)"
  by (induction xs) (auto simp: outcome_defs split: option.splits)

lemma rounds_fatal: "length (filter fatal (rounds_of evs)) \<le> 1"
  by (induction evs rule: rounds_of.induct) (auto simp: fatal_def split: option.splits)

lemma forward_packet_counts:
  assumes "forward_packet now p w b = (go, b1, q)"
  shows "br_txPackets b1 = br_txPackets b + of_nat (length (filter sent_ok [(now, p, w)]))"
    "br_txDropped b1 = br_txDropped b + of_nat (length (filter not_ready [(now, p, w)]))"
    "br_txWriteErrors b1 = br_txWriteErrors b + of_nat (length (filter send_failed [(now, p, w)]))"
    "br_rxPackets b1 = br_rxPackets b" "br_activeTrack b1 = br_activeTrack b" "br_payloadType b1 = br_payloadType b"
    "go \<longleftrightarrow> \<not> fatal (now, p, w)"
    "rb_rewrite now (br_payloadType b) p (br_outbound b) = (br_outbound b1, q)"
    "br_inbound b1 = br_inbound b" "br_local b1 = br_local b" "br_done b1 = br_done b"
  using assms
  by (auto simp: forward_packet_def Let_def outcome_defs countWriteFailure_def split: option.splits prod.splits if_splits)

lemma rounds_of_Inr: "rounds_of ((now, Inr p, w) # evs) = (now, p, w) # (if fatal (now, p, w) then [] else rounds_of evs)"
  by (simp add: fatal_def)

lemma forward_loop_counts:
  "br_txPackets (fst (forward_loop evs b)) = br_txPackets b + of_nat (length (filter sent_ok (rounds_of evs))) \<and>
   br_txDropped (fst (forward_loop evs b)) = br_txDropped b + of_nat (length (filter not_ready (rounds_of evs))) \<and>
   br_txWriteErrors (fst (forward_loop evs b)) = br_txWriteErrors b + of_nat (length (filter send_failed (rounds_of evs))) \<and>
   br_rxPackets (fst (forward_loop evs b)) = br_rxPackets b \<and>
   br_activeTrack (fst (forward_loop evs b)) = br_activeTrack b"
proof (induction evs arbitrary: b)
  case (Cons ev evs)
  obtain now rd w where ev: "ev = (now, rd, w)" by (cases ev)
  show ?case
  proof (cases rd)
    case (Inr p)
    obtain go b1 q where fp: "forward_packet now p w b = (go, b1, q)" by (metis prod_cases3)
    with Cons.IH [of b1] ev Inr forward_packet_counts [OF fp] show ?thesis
      by (auto simp: rounds_of_Inr simp del: rounds_of.simps split: prod.splits)
  qed (simp add: ev)
qed simp

lemma forward_loop_packets:
  "snd (forward_loop evs b) =
     snd (rewrite_all rb_rewrite (br_payloadType b) (map (\<lambda>(now, p, w). (p, now)) (rounds_of evs)) (br_outbound b))"
proof (induction evs arbitrary: b)
  case (Cons ev evs)
  obtain now rd w where ev: "ev = (now, rd, w)" by (cases ev)
  show ?case
  proof (cases rd)
    case (Inr p)
    obtain go b1 q where fp: "forward_packet now p w b = (go, b1, q)" by (metis prod_cases3)
    with Cons.IH [of b1] ev Inr forward_packet_counts [OF fp] show ?thesis
      by (auto simp: rounds_of_Inr simp del: rounds_of.simps split: prod.splits)
  qed (simp add: ev)
qed simp

section \<open>Forwarders interleaved\<close>

text \<open>The bridge with its running \<open>forwardRemote\<close> goroutines (by track), the tracks currently
  subscribed, and whether a track was ever unsubscribed.\<close>

record fwd_sys =
  fw_b :: bridge
  fw_running :: "string list"
  fw_subscribed :: "string set"
  fw_unsub :: bool

definition fwd_init :: "fwd_sys \<Rightarrow> bool" where
  "fwd_init s \<longleftrightarrow> br_activeTrack (fw_b s) = [] \<and> fw_running s = [] \<and> fw_subscribed s = {} \<and> \<not> fw_unsub s"

inductive fwd_step :: "fwd_sys \<Rightarrow> fwd_sys \<Rightarrow> bool" where
  subscribed: "tid \<noteq> [] \<Longrightarrow> onTrackSubscribed mimeOpus mime tid (fw_b s) = (ok, b) \<Longrightarrow>
    fwd_step s (s\<lparr>fw_b := b, fw_running := (if ok then tid # fw_running s else fw_running s),
      fw_subscribed := insert tid (fw_subscribed s)\<rparr>)"
| packet: "tid \<in> set (fw_running s) \<Longrightarrow> forward_packet now p w (fw_b s) = (go, b, q) \<Longrightarrow> fwd_step s (s\<lparr>fw_b := b\<rparr>)"
| returns: "tid \<in> set (fw_running s) \<Longrightarrow>
    fwd_step s (s\<lparr>fw_b := release_track tid (fw_b s), fw_running := remove1 tid (fw_running s)\<rparr>)"
| unsubscribed: "tid \<noteq> [] \<Longrightarrow>
    fwd_step s (s\<lparr>fw_b := onTrackUnsubscribed tid (fw_b s), fw_subscribed := fw_subscribed s - {tid}, fw_unsub := True\<rparr>)"

definition fwd_inv :: "fwd_sys \<Rightarrow> bool" where
  "fwd_inv s \<longleftrightarrow> (br_activeTrack (fw_b s) = [] \<or> br_activeTrack (fw_b s) \<in> set (fw_running s)) \<and> [] \<notin> set (fw_running s) \<and>
     (fw_unsub s \<or> fw_running s = (if br_activeTrack (fw_b s) = [] then [] else [br_activeTrack (fw_b s)]))"

interpretation fwd: safe_system fwd_init fwd_step fwd_inv
proof
  show "fwd_init s \<Longrightarrow> fwd_inv s" for s by (auto simp: fwd_init_def fwd_inv_def)
next
  fix s t
  assume inv: "fwd_inv s" and st: "fwd_step s t"
  from st show "fwd_inv t"
  proof (cases rule: fwd_step.cases)
    case (subscribed tid mimeOpus mime ok b)
    then show ?thesis using inv by (auto simp: fwd_inv_def onTrackSubscribed_def forward_start_def split: if_splits)
  next
    case (packet tid now p w go b q)
    then show ?thesis using inv forward_packet_counts(5) [OF packet(3)] by (auto simp: fwd_inv_def)
  next
    case (returns tid)
    then show ?thesis using inv notin_set_remove1 [of "[]" "fw_running s" tid]
      by (auto simp: fwd_inv_def release_track_def split: if_splits)
  next
    case (unsubscribed tid)
    then show ?thesis using inv by (auto simp: fwd_inv_def onTrackUnsubscribed_def release_track_def)
  qed
qed

text \<open>The agent's direction never touches what the caller's direction uses.\<close>

lemma fwd_step_inbound:
  "fwd_step s t \<Longrightarrow> br_inbound (fw_b t) = br_inbound (fw_b s) \<and> br_local (fw_b t) = br_local (fw_b s) \<and>
     br_rxPackets (fw_b t) = br_rxPackets (fw_b s) \<and> br_done (fw_b t) = br_done (fw_b s)"
proof (erule fwd_step.cases)
  fix tid sa now p w go b q
  assume "s = sa" "t = sa\<lparr>fw_b := b\<rparr>" "forward_packet now p w (fw_b sa) = (go, b, q)"
  then show ?thesis using forward_packet_counts [of now p w "fw_b sa" go b q] by simp
qed (auto simp: onTrackSubscribed_def forward_start_def release_track_def onTrackUnsubscribed_def split: if_splits)

section \<open>Concrete runs\<close>

definition demo_events :: "forward_event list" where
  "demo_events = [(0, Inr (sample_packet 7 1 960), Some ErrBridgeNotReady), (1, Inr (sample_packet 7 2 1920), None),
     (2, Inr (sample_packet 7 3 2880), Some (Wrapped ''write: '' ErrEOF [])), (3, Inr (sample_packet 7 4 3840), None)]"

abbreviation fsys :: "string \<Rightarrow> string list \<Rightarrow> string set \<Rightarrow> bool \<Rightarrow> fwd_sys" where
  "fsys act run sub u \<equiv> \<lparr>fw_b = (newBridge 111)\<lparr>br_activeTrack := act\<rparr>, fw_running = run, fw_subscribed = sub, fw_unsub = u\<rparr>"

lemma fsys_start:
  "tid \<noteq> [] \<Longrightarrow> fwd_step (fsys [] run sub u) (fsys tid (tid # run) (insert tid sub) u)"
  using fwd_step.subscribed [of tid "''audio/opus''" "''audio/opus''" "fsys [] run sub u" True "(newBridge 111)\<lparr>br_activeTrack := tid\<rparr>"]
  by (simp add: onTrackSubscribed_def forward_start_def)

lemma fsys_return:
  "tid \<in> set run \<Longrightarrow> fwd_step (fsys tid run sub u) (fsys [] (remove1 tid run) sub u)"
  using fwd_step.returns [of tid "fsys tid run sub u"] by (simp add: release_track_def)

lemma fsys_unsubscribe: "tid \<noteq> [] \<Longrightarrow> fwd_step (fsys tid run sub u) (fsys [] run (sub - {tid}) True)"
  using fwd_step.unsubscribed [of tid "fsys tid run sub u"] by (simp add: onTrackUnsubscribed_def release_track_def)

lemma fsys_subscribed: "reach fwd_init fwd_step (fsys ''A'' [''A''] {''A''} False)"
proof (rule reach_step)
  show "reach fwd_init fwd_step (fsys [] [] {} False)"
    by (rule reach_init) (simp add: fwd_init_def newBridge_def)
  show "fwd_step (fsys [] [] {} False) (fsys ''A'' [''A''] {''A''} False)" by (rule fsys_start) simp
qed

text \<open>Track A is unsubscribed and subscribed again; the first forwarder of A ends late and takes
  the registration of the second one with it; then B starts although A is being forwarded.\<close>

lemma fsys_two_tracks: "reach fwd_init fwd_step (fsys ''B'' [''B'', ''A''] (insert ''B'' (insert ''A'' ({''A''} - {''A''}))) True)"
proof -
  have "fwd_step (fsys ''A'' [''A''] {''A''} False) (fsys [] [''A''] ({''A''} - {''A''}) True)"
    by (rule fsys_unsubscribe) simp
  with fsys_subscribed have "reach fwd_init fwd_step (fsys [] [''A''] ({''A''} - {''A''}) True)" by (rule reach_step)
  moreover have "fwd_step (fsys [] [''A''] ({''A''} - {''A''}) True)
      (fsys ''A'' [''A'', ''A''] (insert ''A'' ({''A''} - {''A''})) True)" by (rule fsys_start) simp
  ultimately have "reach fwd_init fwd_step (fsys ''A'' [''A'', ''A''] (insert ''A'' ({''A''} - {''A''})) True)" by (rule reach_step)
  moreover have "fwd_step (fsys ''A'' [''A'', ''A''] (insert ''A'' ({''A''} - {''A''})) True)
      (fsys [] [''A''] (insert ''A'' ({''A''} - {''A''})) True)"
    using fsys_return [of "''A''" "[''A'', ''A'']"] by simp
  ultimately have "reach fwd_init fwd_step (fsys [] [''A''] (insert ''A'' ({''A''} - {''A''})) True)" by (rule reach_step)
  moreover have "fwd_step (fsys [] [''A''] (insert ''A'' ({''A''} - {''A''})) True)
      (fsys ''B'' [''B'', ''A''] (insert ''B'' (insert ''A'' ({''A''} - {''A''}))) True)" by (rule fsys_start) simp
  ultimately show ?thesis by (rule reach_step)
qed

section \<open>Properties\<close>

text \<open>
  C35: Every packet that \<open>forwardRemote\<close> reads from the agent's track is accounted for exactly
  once: the three counters grow by the packets sent, dropped because Meta is not ready, and
  failed transiently; what is left is at most one packet, the one whose fatal error ends the
  forwarder. Transient errors never end it: all packets up to there were offered to Meta, in
  order, rewritten by one rebaser.
\<close>

theorem forwardRemote_accounts:
  assumes "br_activeTrack b = []" "forwardRemote tid evs b = (b', sent)"
  shows "sent = snd (rewrite_all rb_rewrite (br_payloadType b) (map (\<lambda>(now, p, w). (p, now)) (rounds_of evs)) (br_outbound b)) \<and>
    br_txPackets b' = br_txPackets b + of_nat (length (filter sent_ok (rounds_of evs))) \<and>
    br_txDropped b' = br_txDropped b + of_nat (length (filter not_ready (rounds_of evs))) \<and>
    br_txWriteErrors b' = br_txWriteErrors b + of_nat (length (filter send_failed (rounds_of evs))) \<and>
    length (filter sent_ok (rounds_of evs)) + length (filter not_ready (rounds_of evs)) +
      length (filter send_failed (rounds_of evs)) + length (filter fatal (rounds_of evs)) = length (rounds_of evs) \<and>
    length (filter fatal (rounds_of evs)) \<le> 1 \<and> br_activeTrack b' = []"
proof -
  let ?b1 = "b\<lparr>br_activeTrack := tid\<rparr>"
  obtain b2 qs where fl: "forward_loop evs ?b1 = (b2, qs)" by fastforce
  with assms have b': "b' = release_track tid b2" "sent = qs"
    by (auto simp: forwardRemote_def forward_start_def)
  have "br_txPackets b' = br_txPackets b2" "br_txDropped b' = br_txDropped b2" "br_txWriteErrors b' = br_txWriteErrors b2"
    by (simp_all add: b' release_track_def)
  moreover have "br_activeTrack b' = []"
    using forward_loop_counts [of evs ?b1] fl by (simp add: b' release_track_def)
  ultimately show ?thesis
    using forward_loop_counts [of evs ?b1] forward_loop_packets [of evs ?b1] fl b'(2)
      outcomes_partition [of "rounds_of evs"] rounds_fatal [of evs] by simp
qed

theorem forwardRemote_accounts_witness:
  "br_txPackets (fst (forwardRemote ''A'' demo_events (newBridge 111))) = 1 \<and>
   br_txDropped (fst (forwardRemote ''A'' demo_events (newBridge 111))) = 1 \<and>
   length (rounds_of demo_events) = 3"
proof -
  have n: "length (filter sent_ok (rounds_of demo_events)) = 1" "length (filter not_ready (rounds_of demo_events)) = 1"
      "length (rounds_of demo_events) = 3" "br_activeTrack (newBridge 111) = []"
      "br_txPackets (newBridge 111) = 0" "br_txDropped (newBridge 111) = 0"
    by code_simp+
  obtain b' sent where "forwardRemote ''A'' demo_events (newBridge 111) = (b', sent)" by fastforce
  with forwardRemote_accounts [OF n(4) this] n show ?thesis by simp
qed

text \<open>
  A registration never outlives its forwarder, so agent audio cannot be shut out for good:
  in every reachable state, if no forwarder is running the next subscribed track is accepted;
  and as long as no track was unsubscribed, at most one forwarder runs.
\<close>

lemma forwarders_exclusive:
  assumes "reach fwd_init fwd_step s"
  shows "(fw_running s = [] \<longrightarrow> fst (forward_start tid (fw_b s))) \<and> (\<not> fw_unsub s \<longrightarrow> length (fw_running s) \<le> 1)"
  using fwd.reach_inv [OF assms] by (auto simp: fwd_inv_def forward_start_def split: if_splits)

lemma forwarders_exclusive_example: "length (fw_running (fsys ''A'' [''A''] {''A''} False)) \<le> 1"
  using forwarders_exclusive [OF fsys_subscribed] by simp

text \<open>
  The converse fails after an unsubscription: the deferred clean-up of a forwarder
  compares track ids only, so when a track is unsubscribed and subscribed again, the late end
  of the first forwarder releases the registration of the second one, and another track is
  then forwarded at the same time as the first although both are subscribed.
\<close>

lemma two_subscribed_tracks_forwarded:
  "\<exists>s. reach fwd_init fwd_step s \<and> fw_running s = [''B'', ''A''] \<and> {''A'', ''B''} \<subseteq> fw_subscribed s"
proof (intro exI conjI)
  show "reach fwd_init fwd_step (fsys ''B'' [''B'', ''A''] (insert ''B'' (insert ''A'' ({''A''} - {''A''}))) True)"
    by (rule fsys_two_tracks)
qed simp_all

text \<open>
  \<open>Connect\<close> leaks no room: on every error after joining, the room is disconnected again;
  a bridge that is returned has joined, has its track published, and is not done.
\<close>

lemma bridge_Connect_clean:
  "case bridge_Connect pt token join_err track publish of
     (Inr b, joined, left_room) \<Rightarrow> joined \<and> \<not> left_room \<and> br_room b \<and> br_local b \<and> br_done b = 0 \<and>
       br_activeTrack b = [] \<and> br_payloadType b = pt
   | (Inl e, joined, left_room) \<Rightarrow> joined = left_room \<and> Some e \<in> {token, join_err, track, publish}"
  by (auto simp: bridge_Connect_def newBridge_def Let_def split: option.splits)

end
