(* ===== verification/Call.thy ===== *)
theory Call
  imports Sdp
begin

text \<open>
  \<open>internal/call/manager.go\<close>, one call: the \<open>Call\<close> structure with its flags and one-shot
  channels, the operations on it (each a critical section of \<open>c.mu\<close>), and the goroutine
  \<open>runInbound\<close> or \<open>runOutbound\<close> that takes the call from the bridge through signalling and
  media to clean-up. \<open>run_step\<close> is that goroutine; \<open>ext_step\<close> is what other goroutines do to
  the call meanwhile (the critical sections of disconnect requests, cancellations, the answer
  of an outbound call, the end of the bridge and of the media) and the passing of time. Within the call's own goroutine a stop is one step: its cancellation
  commutes with what others do in between.
  Results of LiveKit, Meta and the media transport are chosen by the environment.
\<close>

section \<open>State\<close>

text \<open>Attributes and agent dispatches are handed through to LiveKit unread and left out.\<close>

record callParams =
  cp_PhoneID :: string
  cp_APIToken :: string
  cp_APIVersion :: string
  cp_CallID :: string
  cp_SDP :: string
  cp_RoomName :: string
  cp_Identity :: string
  cp_Name :: string
  cp_Metadata :: string
  cp_Wait :: bool
  cp_Timeout :: duration

text \<open>Channels that are only closed are counted: \<open>ca_ready\<close> is how often \<open>ready\<close> was closed.
  \<open>ca_transport\<close>, \<open>ca_bridge\<close>, \<open>ca_udp\<close>: the field is not nil.\<close>

record call =
  ca_params :: callParams
  ca_room :: string
  ca_identity :: string
  ca_cancelled :: bool
  ca_transport :: bool
  ca_bridge :: bool
  ca_answer :: string
  ca_ready :: nat
  ca_answerReady :: nat
  ca_done :: nat
  ca_udp :: bool
  ca_negotiation :: "Negotiation option"
  ca_outbound :: bool
  ca_err :: "go_error option"
  ca_terminate :: bool
  ca_userTerminated :: bool
  ca_signaled :: bool

definition new_inbound :: "callParams \<Rightarrow> string \<Rightarrow> call" where
  "new_inbound p answer = \<lparr>ca_params = p, ca_room = cp_RoomName p, ca_identity = cp_Identity p, ca_cancelled = False,
     ca_transport = True, ca_bridge = False, ca_answer = answer, ca_ready = 0, ca_answerReady = 0, ca_done = 0,
     ca_udp = False, ca_negotiation = None, ca_outbound = False, ca_err = None, ca_terminate = False,
     ca_userTerminated = False, ca_signaled = False\<rparr>"

definition new_outbound :: "callParams \<Rightarrow> Negotiation \<Rightarrow> call" where
  "new_outbound p n = \<lparr>ca_params = p, ca_room = cp_RoomName p, ca_identity = cp_Identity p, ca_cancelled = False,
     ca_transport = False, ca_bridge = False, ca_answer = [], ca_ready = 0, ca_answerReady = 0, ca_done = 0,
     ca_udp = True, ca_negotiation = Some n, ca_outbound = True, ca_err = None, ca_terminate = False,
     ca_userTerminated = False, ca_signaled = True\<rparr>"

section \<open>Operations\<close>

definition signalReady :: "go_error option \<Rightarrow> call \<Rightarrow> call" where
  "signalReady err c = (if 0 < ca_ready c then c else c\<lparr>ca_err := err, ca_ready := ca_ready c + 1\<rparr>)"

text \<open>The two halves of a stop: the flags under the mutex, then the cancellation of the context.\<close>

definition mark_business :: "call \<Rightarrow> call" where
  "mark_business c = c\<lparr>ca_terminate := (if \<not> ca_userTerminated c then True else ca_terminate c)\<rparr>"

definition mark_user :: "call \<Rightarrow> call" where
  "mark_user c = c\<lparr>ca_userTerminated := True, ca_terminate := False\<rparr>"

definition cancel_ctx :: "call \<Rightarrow> call" where
  "cancel_ctx c = c\<lparr>ca_cancelled := True\<rparr>"

definition stopBusiness :: "call \<Rightarrow> call" where
  "stopBusiness c = cancel_ctx (mark_business c)"

definition stopUser :: "call \<Rightarrow> call" where
  "stopUser c = cancel_ctx (mark_user c)"

definition fail :: "go_error \<Rightarrow> call \<Rightarrow> call" where
  "fail e c = stopBusiness (signalReady (Some e) c)"

text \<open>\<open>wait\<close>: \<open>ctx\<close> is the error of the caller's context if it has ended, \<open>ready_first\<close> the
  choice of \<open>select\<close> when both are ready; \<open>None\<close> means that the call blocks.\<close>

definition call_wait :: "bool \<Rightarrow> go_error option \<Rightarrow> call \<Rightarrow> go_error option option" where
  "call_wait ready_first ctx c =
     (if 0 < ca_ready c \<and> (ready_first \<or> ctx = None) then Some (ca_err c)
      else (case ctx of Some e \<Rightarrow> Some (Some e) | None \<Rightarrow> None))"

text \<open>The decision of \<open>cleanup\<close>: whether Meta must be told to terminate the call.\<close>

definition must_terminate :: "call \<Rightarrow> bool" where
  "must_terminate c \<longleftrightarrow> ca_terminate c \<and> ca_signaled c"

text \<open>\<open>writeToMeta\<close>; \<open>try\<close> is the answer of \<open>TryWriteRTP\<close>.\<close>

definition writeToMeta :: "go_error option \<Rightarrow> call \<Rightarrow> go_error option" where
  "writeToMeta try c =
     (if ca_outbound c \<and> ca_answerReady c = 0 then Some ErrBridgeNotReady
      else if \<not> ca_transport c then Some ErrBridgeNotReady
      else (case try of
              Some e \<Rightarrow> if err_is e ErrMediaNotReady then Some ErrBridgeNotReady else Some e
            | None \<Rightarrow> None))"

text \<open>The branch that \<open>select\<close> takes in \<open>awaitEnd\<close>, and \<open>awaitEnd\<close> itself: the reason and the
  call afterwards, \<open>None\<close> if that branch is not ready. \<open>bridgeDone\<close> says whether the channel of that
  name is closed, \<open>mediaErr\<close> is the contents of the other one, and \<open>elapsed\<close> the time since the
  timer was created (a nil timer channel is never ready).\<close>

datatype end_event = E_ctx | E_bridge | E_media | E_cap

definition endUserHangup :: string where "endUserHangup = ''user_hangup''"
definition endDisconnected :: string where "endDisconnected = ''disconnect_requested''"
definition endLiveKitClosed :: string where "endLiveKitClosed = ''livekit_disconnected_or_agent_left''"
definition endMediaStopped :: string where "endMediaStopped = ''media_stopped''"
definition endMaxDuration :: string where "endMaxDuration = ''max_duration''"

definition awaitEnd :: "duration \<Rightarrow> bool \<Rightarrow> go_error list \<Rightarrow> duration \<Rightarrow> end_event \<Rightarrow> call \<Rightarrow> (string \<times> call) option" where
  "awaitEnd maxDuration bridgeDone mediaErr elapsed ev c =
     (case ev of
        E_ctx \<Rightarrow>
          (if \<not> ca_cancelled c then None
           else if ca_userTerminated c then Some (endUserHangup, c) else Some (endDisconnected, c))
      | E_bridge \<Rightarrow> (if bridgeDone then Some (endLiveKitClosed, stopBusiness c) else None)
      | E_media \<Rightarrow> (case mediaErr of [] \<Rightarrow> None | e # q \<Rightarrow> Some (endMediaStopped, stopBusiness c))
      | E_cap \<Rightarrow> (if 0 < maxDuration \<and> maxDuration \<le> elapsed then Some (endMaxDuration, stopBusiness c) else None))"

text \<open>What is left in the channel of media errors.\<close>

definition received :: "end_event \<Rightarrow> go_error list \<Rightarrow> go_error list" where
  "received ev q = (case ev of E_media \<Rightarrow> tl q | _ \<Rightarrow> q)"

text \<open>\<open>Manager.Connect\<close> once it has found the call: the answer is applied and the transport
  created by the first successful call only.\<close>

definition call_Connect :: "sdp_parser \<Rightarrow> candidate_parser \<Rightarrow> string \<Rightarrow> call \<Rightarrow> go_error option \<times> call" where
  "call_Connect unmarshal uc answer c =
     (if \<not> ca_outbound c then (Some (ErrText ''outbound WhatsApp call not found''), c)
      else if ca_transport c then (None, c)
      else (case ca_negotiation c of
        None \<Rightarrow> (Some (sdp_error ''outbound offer state missing''), c)
      | Some n \<Rightarrow>
          (case ApplyAnswer unmarshal uc answer n of
             (Some e, n') \<Rightarrow> (Some e, c\<lparr>ca_negotiation := Some n'\<rparr>)
           | (None, n') \<Rightarrow> (None, c\<lparr>ca_negotiation := Some n', ca_transport := True, ca_answerReady := ca_answerReady c + 1\<rparr>))))"

definition set_token :: "string \<Rightarrow> call \<Rightarrow> call" where
  "set_token tok c = (if tok = [] then c else c\<lparr>ca_params := (ca_params c)\<lparr>cp_APIToken := tok\<rparr>\<rparr>)"

text \<open>\<open>Manager.Disconnect\<close> once it has found the call.\<close>

definition call_Disconnect :: "bool \<Rightarrow> string \<Rightarrow> call \<Rightarrow> call" where
  "call_Disconnect user tok c = (if user then stopUser (set_token tok c) else stopBusiness (set_token tok c))"

section \<open>The goroutine of a call\<close>

datatype call_pc =
    P_bridge | P_preaccept | P_answer | P_media | P_accept | P_connected | P_talk
  | P_cleanup | P_decide | P_terminate bool | P_close | P_delete | P_wg | P_done

text \<open>The call with the position of its goroutine, whether the bridge's channel \<open>done\<close> is closed, the
  contents of the channel \<open>errCh\<close>, the time since \<open>awaitEnd\<close> was entered, and as history: whether
  \<open>connected\<close> was entered, how often Meta was told to terminate, and which resources were closed.\<close>

record csys =
  cs_c :: call
  cs_pc :: call_pc
  cs_bridgeDone :: bool
  cs_mediaErr :: "go_error list"
  cs_talked :: duration
  cs_connected :: bool
  cs_terminates :: nat
  cs_bridgeClosed :: bool
  cs_socketClosed :: bool

definition start_call :: "call \<Rightarrow> csys" where
  "start_call c = \<lparr>cs_c = c, cs_pc = P_bridge, cs_bridgeDone = False, cs_mediaErr = [], cs_talked = 0, cs_connected = False, cs_terminates = 0, cs_bridgeClosed = False,
     cs_socketClosed = False\<rparr>"

definition call_init :: "csys \<Rightarrow> bool" where
  "call_init s \<longleftrightarrow> (\<exists>p answer. s = start_call (new_inbound p answer)) \<or> (\<exists>p n. s = start_call (new_outbound p n))"

definition failed :: "go_error \<Rightarrow> csys \<Rightarrow> csys" where
  "failed e s = s\<lparr>cs_c := fail e (cs_c s), cs_pc := P_cleanup\<rparr>"

inductive run_step :: "duration \<Rightarrow> csys \<Rightarrow> csys \<Rightarrow> bool" for maxDuration where
  step_failed: "cs_pc s \<in> {P_bridge, P_preaccept, P_media, P_accept} \<Longrightarrow> run_step maxDuration s (failed e s)"
| bridge_ok: "cs_pc s = P_bridge \<Longrightarrow>
    run_step maxDuration s (s\<lparr>cs_c := (cs_c s)\<lparr>ca_bridge := True\<rparr>, cs_pc := (if ca_outbound (cs_c s) then P_answer else P_preaccept)\<rparr>)"
| preaccept_ok: "cs_pc s = P_preaccept \<Longrightarrow>
    run_step maxDuration s (s\<lparr>cs_c := (cs_c s)\<lparr>ca_signaled := True\<rparr>, cs_pc := P_media\<rparr>)"
| answered: "cs_pc s = P_answer \<Longrightarrow> 0 < ca_answerReady (cs_c s) \<Longrightarrow> ca_transport (cs_c s) \<Longrightarrow>
    run_step maxDuration s (s\<lparr>cs_pc := P_media\<rparr>)"
| answered_nil: "cs_pc s = P_answer \<Longrightarrow> 0 < ca_answerReady (cs_c s) \<Longrightarrow> \<not> ca_transport (cs_c s) \<Longrightarrow>
    run_step maxDuration s (failed (ErrText ''outbound transport was not created'') s)"
| answer_timeout: "cs_pc s = P_answer \<Longrightarrow> run_step maxDuration s (failed ErrDeadlineExceeded s)"
| answer_cancelled: "cs_pc s = P_answer \<Longrightarrow> ca_cancelled (cs_c s) \<Longrightarrow> run_step maxDuration s (s\<lparr>cs_pc := P_cleanup\<rparr>)"
| media_ok: "cs_pc s = P_media \<Longrightarrow>
    run_step maxDuration s (s\<lparr>cs_pc := (if ca_outbound (cs_c s) then P_connected else P_accept)\<rparr>)"
| accept_ok: "cs_pc s = P_accept \<Longrightarrow> run_step maxDuration s (s\<lparr>cs_pc := P_connected\<rparr>)"
| connected: "cs_pc s = P_connected \<Longrightarrow>
    run_step maxDuration s (s\<lparr>cs_c := signalReady None (cs_c s), cs_pc := P_talk, cs_connected := True\<rparr>)"
| ends: "cs_pc s = P_talk \<Longrightarrow> awaitEnd maxDuration (cs_bridgeDone s) (cs_mediaErr s) (cs_talked s) ev (cs_c s) = Some (reason, c) \<Longrightarrow>
    run_step maxDuration s (s\<lparr>cs_c := c, cs_pc := P_cleanup, cs_mediaErr := received ev (cs_mediaErr s)\<rparr>)"
| cleanup_ready: "cs_pc s = P_cleanup \<Longrightarrow>
    run_step maxDuration s (s\<lparr>cs_c := signalReady (Some ErrCanceled) (cs_c s), cs_pc := P_decide\<rparr>)"
| decide: "cs_pc s = P_decide \<Longrightarrow> run_step maxDuration s (s\<lparr>cs_pc := P_terminate (must_terminate (cs_c s))\<rparr>)"
| terminate: "cs_pc s = P_terminate b \<Longrightarrow>
    run_step maxDuration s (s\<lparr>cs_terminates := cs_terminates s + (if b then 1 else 0), cs_pc := P_close\<rparr>)"
| close_all: "cs_pc s = P_close \<Longrightarrow>
    run_step maxDuration s (s\<lparr>cs_bridgeClosed := ca_bridge (cs_c s), cs_socketClosed := ca_transport (cs_c s) \<or> ca_udp (cs_c s),
      cs_pc := P_delete\<rparr>)"

inductive ext_step :: "csys \<Rightarrow> csys \<Rightarrow> bool" where
  mark_business: "ext_step s (s\<lparr>cs_c := mark_business (cs_c s)\<rparr>)"
| mark_user: "ext_step s (s\<lparr>cs_c := mark_user (cs_c s)\<rparr>)"
| cancel_ctx: "ca_terminate (cs_c s) \<or> ca_userTerminated (cs_c s) \<Longrightarrow> ext_step s (s\<lparr>cs_c := cancel_ctx (cs_c s)\<rparr>)"
| token: "ext_step s (s\<lparr>cs_c := set_token tok (cs_c s)\<rparr>)"
| connect: "call_Connect unmarshal uc answer (cs_c s) = (e, c) \<Longrightarrow> ext_step s (s\<lparr>cs_c := c\<rparr>)"
| bridge_done: "ca_bridge (cs_c s) \<Longrightarrow> ext_step s (s\<lparr>cs_bridgeDone := True\<rparr>)"
| media_failed: "cs_connected s \<Longrightarrow> cs_mediaErr s = [] \<Longrightarrow> ext_step s (s\<lparr>cs_mediaErr := [e]\<rparr>)"
| elapse: "cs_pc s = P_talk \<Longrightarrow> 0 < dt \<Longrightarrow> ext_step s (s\<lparr>cs_talked := cs_talked s + dt\<rparr>)"

definition cstep :: "duration \<Rightarrow> csys \<Rightarrow> csys \<Rightarrow> bool" where
  "cstep maxDuration s t \<longleftrightarrow> run_step maxDuration s t \<or> ext_step s t"

text \<open>The whole operations that other goroutines perform on a call, as sequences of such steps.\<close>

lemma stop_business_steps: "ext_step\<^sup>*\<^sup>* s (s\<lparr>cs_c := stopBusiness (cs_c s)\<rparr>)"
proof -
  let ?t = "s\<lparr>cs_c := mark_business (cs_c s)\<rparr>"
  have "ext_step s ?t" by (rule ext_step.mark_business)
  moreover have "ext_step ?t (s\<lparr>cs_c := stopBusiness (cs_c s)\<rparr>)"
    using ext_step.cancel_ctx [of ?t] by (simp add: stopBusiness_def mark_business_def)
  ultimately show ?thesis by (meson converse_rtranclp_into_rtranclp rtranclp.rtrancl_refl)
qed

lemma stop_user_steps: "ext_step\<^sup>*\<^sup>* s (s\<lparr>cs_c := stopUser (cs_c s)\<rparr>)"
proof -
  let ?t = "s\<lparr>cs_c := mark_user (cs_c s)\<rparr>"
  have "ext_step s ?t" by (rule ext_step.mark_user)
  moreover have "ext_step ?t (s\<lparr>cs_c := stopUser (cs_c s)\<rparr>)"
    using ext_step.cancel_ctx [of ?t] by (simp add: stopUser_def mark_user_def)
  ultimately show ?thesis by (meson converse_rtranclp_into_rtranclp rtranclp.rtrancl_refl)
qed

lemma disconnect_steps: "ext_step\<^sup>*\<^sup>* s (s\<lparr>cs_c := call_Disconnect user tok (cs_c s)\<rparr>)"
proof -
  let ?t = "s\<lparr>cs_c := set_token tok (cs_c s)\<rparr>"
  have "ext_step s ?t" by (rule ext_step.token)
  moreover have "ext_step\<^sup>*\<^sup>* ?t (s\<lparr>cs_c := call_Disconnect user tok (cs_c s)\<rparr>)"
    using stop_user_steps [of ?t] stop_business_steps [of ?t] by (simp add: call_Disconnect_def)
  ultimately show ?thesis by (rule converse_rtranclp_into_rtranclp)
qed

text \<open>\<open>cleanup\<close> as a whole.\<close>

definition call_cleanup :: "csys \<Rightarrow> csys" where
  "call_cleanup s =
     (let c = signalReady (Some ErrCanceled) (cs_c s)
      in s\<lparr>cs_c := c, cs_terminates := cs_terminates s + (if must_terminate c then 1 else 0),
           cs_bridgeClosed := ca_bridge c, cs_socketClosed := ca_transport c \<or> ca_udp c, cs_pc := P_delete\<rparr>)"

lemma cleanup_steps:
  assumes "cs_pc s = P_cleanup"
  shows "(run_step d)\<^sup>*\<^sup>* s (call_cleanup s)"
proof -
  let ?c = "signalReady (Some ErrCanceled) (cs_c s)"
  let ?s1 = "s\<lparr>cs_c := ?c, cs_pc := P_decide\<rparr>"
  let ?s2 = "?s1\<lparr>cs_pc := P_terminate (must_terminate ?c)\<rparr>"
  let ?s3 = "?s2\<lparr>cs_terminates := cs_terminates s + (if must_terminate ?c then 1 else 0), cs_pc := P_close\<rparr>"
  have "run_step d s ?s1" using assms by (rule run_step.cleanup_ready)
  moreover have "run_step d ?s1 ?s2" using run_step.decide [of ?s1 d] by simp
  moreover have "run_step d ?s2 ?s3" using run_step.terminate [of ?s2 "must_terminate ?c" d] by simp
  moreover have "run_step d ?s3 (call_cleanup s)"
    using run_step.close_all [of ?s3 d] by (simp add: call_cleanup_def Let_def)
  ultimately show ?thesis by (meson converse_rtranclp_into_rtranclp rtranclp.rtrancl_refl)
qed

interpretation ready_signal: one_shot "signalReady e" "\<lambda>c. 0 < ca_ready c"
  by unfold_locales (simp_all add: signalReady_def)

section \<open>Invariants\<close>

text \<open>Run steps the goroutine can still make before the call is removed.\<close>

primrec prank :: "call_pc \<Rightarrow> nat" where
  "prank P_bridge = 13"
| "prank P_preaccept = 12"
| "prank P_answer = 12"
| "prank P_media = 11"
| "prank P_accept = 10"
| "prank P_connected = 9"
| "prank P_talk = 8"
| "prank P_cleanup = 7"
| "prank P_decide = 6"
| "prank (P_terminate b) = 5"
| "prank P_close = 4"
| "prank P_delete = 3"
| "prank P_wg = 2"
| "prank P_done = 1"

text \<open>The flags: cancelled only if one side has ended the call, a user hang-up wins.\<close>

definition flag_inv :: "csys \<Rightarrow> bool" where
  "flag_inv s \<longleftrightarrow> (let c = cs_c s in
     (ca_userTerminated c \<longrightarrow> \<not> ca_terminate c) \<and> (ca_cancelled c \<longrightarrow> ca_terminate c \<or> ca_userTerminated c) \<and>
     (prank (cs_pc s) \<le> 7 \<longrightarrow> ca_cancelled c))"

text \<open>The channel \<open>ready\<close> and the result waiters get.\<close>

definition call_ready_inv :: "csys \<Rightarrow> bool" where
  "call_ready_inv s \<longleftrightarrow> (let c = cs_c s in
     ca_ready c \<le> 1 \<and> (8 < prank (cs_pc s) \<longrightarrow> ca_ready c = 0) \<and> (prank (cs_pc s) \<le> 6 \<longrightarrow> ca_ready c = 1) \<and>
     (cs_pc s = P_talk \<longrightarrow> ca_ready c = 1) \<and>
     (cs_connected s \<longleftrightarrow> ca_ready c = 1 \<and> ca_err c = None))"

text \<open>What is sent to Meta at the end.\<close>

definition term_inv :: "csys \<Rightarrow> bool" where
  "term_inv s \<longleftrightarrow> (let c = cs_c s in
     (4 < prank (cs_pc s) \<longrightarrow> cs_terminates s = 0) \<and> cs_terminates s \<le> 1 \<and>
     (cs_terminates s = 1 \<longrightarrow> ca_signaled c) \<and>
     (\<forall>b. cs_pc s = P_terminate b \<longrightarrow> (b \<longrightarrow> ca_signaled c) \<and> (ca_signaled c \<and> \<not> ca_userTerminated c \<longrightarrow> b)) \<and>
     (prank (cs_pc s) \<le> 4 \<and> ca_signaled c \<and> \<not> ca_userTerminated c \<longrightarrow> cs_terminates s = 1))"

text \<open>The resources of the call, and the outbound answer.\<close>

definition res_inv :: "csys \<Rightarrow> bool" where
  "res_inv s \<longleftrightarrow> (let c = cs_c s in
     (ca_transport c \<or> ca_udp c) \<and> ca_answerReady c = (if ca_outbound c \<and> ca_transport c then 1 else 0) \<and>
     (cs_pc s = P_bridge \<longrightarrow> \<not> ca_bridge c) \<and> (cs_pc s = P_preaccept \<longrightarrow> \<not> ca_outbound c) \<and>
     (\<not> ca_outbound c \<longrightarrow> ca_transport c) \<and> (prank (cs_pc s) \<in> {9, 10, 11} \<longrightarrow> ca_transport c) \<and>
     (prank (cs_pc s) \<le> 3 \<longrightarrow> cs_socketClosed s \<and> cs_bridgeClosed s = ca_bridge c))"

definition call_inv :: "csys \<Rightarrow> bool" where
  "call_inv s \<longleftrightarrow> flag_inv s \<and> call_ready_inv s \<and> term_inv s \<and> res_inv s"

lemmas call_op_defs = fail_def stopBusiness_def stopUser_def mark_business_def mark_user_def cancel_ctx_def signalReady_def set_token_def call_Disconnect_def failed_def
  must_terminate_def

text \<open>An outbound answer only touches the negotiation, the transport and \<open>answerReady\<close>.\<close>

lemma call_Connect_cases:
  assumes "call_Connect unmarshal uc answer c = (e, c')"
  obtains "c' = c" | n where "c' = c\<lparr>ca_negotiation := n\<rparr>"
  | n where "c' = c\<lparr>ca_negotiation := n, ca_transport := True, ca_answerReady := ca_answerReady c + 1\<rparr>"
      "ca_outbound c" "\<not> ca_transport c"
  using assms by (auto simp: call_Connect_def split: if_splits option.splits prod.splits)

lemma awaitEnd_cases:
  assumes "awaitEnd d bd me el ev c = Some (reason, c')"
  obtains "c' = c" "ca_cancelled c" | "c' = stopBusiness c"
  using assms by (auto simp: awaitEnd_def split: end_event.splits if_splits list.splits)

lemma flag_inv_run: "run_step d s t \<Longrightarrow> flag_inv s \<Longrightarrow> flag_inv t"
  by (erule run_step.cases; (elim awaitEnd_cases)?; clarsimp simp: flag_inv_def Let_def call_op_defs split: if_splits; auto)

lemma call_ready_inv_run: "run_step d s t \<Longrightarrow> call_ready_inv s \<Longrightarrow> call_ready_inv t"
  by (erule run_step.cases; (elim awaitEnd_cases)?; clarsimp simp: call_ready_inv_def Let_def call_op_defs split: if_splits; auto)

lemma term_inv_run: "run_step d s t \<Longrightarrow> flag_inv s \<Longrightarrow> term_inv s \<Longrightarrow> term_inv t"
  by (erule run_step.cases; (elim awaitEnd_cases)?;
      clarsimp simp: flag_inv_def term_inv_def Let_def call_op_defs split: if_splits; auto)

lemma res_inv_run: "run_step d s t \<Longrightarrow> res_inv s \<Longrightarrow> res_inv t"
  by (erule run_step.cases; (elim awaitEnd_cases)?; simp add: res_inv_def Let_def call_op_defs split: if_splits)

lemma call_inv_ext: "ext_step s t \<Longrightarrow> call_inv s \<Longrightarrow> call_inv t"
  by (erule ext_step.cases; (elim call_Connect_cases)?;
      clarsimp simp: call_inv_def flag_inv_def call_ready_inv_def term_inv_def res_inv_def Let_def call_op_defs split: if_splits; auto)

lemma call_inv_init: "call_init s \<Longrightarrow> call_inv s"
  by (auto simp: call_init_def start_call_def new_inbound_def new_outbound_def call_inv_def flag_inv_def
      call_ready_inv_def term_inv_def res_inv_def)

interpretation a_call: safe_system call_init "cstep d" call_inv
proof
  show "call_init s \<Longrightarrow> call_inv s" for s by (rule call_inv_init)
  show "call_inv s \<Longrightarrow> cstep d s t \<Longrightarrow> call_inv t" for s t
    unfolding cstep_def
    by (metis call_inv_def call_inv_ext flag_inv_run call_ready_inv_run term_inv_run res_inv_run)
qed

lemma ext_csteps: "ext_step\<^sup>*\<^sup>* s t \<Longrightarrow> (cstep d)\<^sup>*\<^sup>* s t"
  by (induction rule: rtranclp_induct) (auto simp: cstep_def intro: rtranclp.rtrancl_into_rtrancl)

section \<open>Progress\<close>

lemma prank_run: "run_step d s t \<Longrightarrow> prank (cs_pc t) < prank (cs_pc s)"
  by (erule run_step.cases; auto simp: failed_def)

lemma prank_ext: "ext_step s t \<Longrightarrow> cs_pc t = cs_pc s"
  by (erule ext_step.cases; simp)

lemma talked_ext: "ext_step s t \<Longrightarrow> cs_talked s \<le> cs_talked t"
  by (erule ext_step.cases; simp)

text \<open>Outside \<open>awaitEnd\<close> the goroutine is never stuck before the call is removed; there it goes on as
  soon as one of its channels is ready.\<close>

definition end_due :: "duration \<Rightarrow> csys \<Rightarrow> bool" where
  "end_due d s \<longleftrightarrow> ca_cancelled (cs_c s) \<or> cs_bridgeDone s \<or> cs_mediaErr s \<noteq> [] \<or> (0 < d \<and> d \<le> cs_talked s)"

lemma awaitEnd_due: "end_due d s \<longleftrightarrow> (\<exists>ev reason c. awaitEnd d (cs_bridgeDone s) (cs_mediaErr s) (cs_talked s) ev (cs_c s) = Some (reason, c))"
proof
  assume due: "end_due d s"
  define ev where "ev = (if ca_cancelled (cs_c s) then E_ctx else if cs_bridgeDone s then E_bridge
    else if cs_mediaErr s \<noteq> [] then E_media else E_cap)"
  have "awaitEnd d (cs_bridgeDone s) (cs_mediaErr s) (cs_talked s) ev (cs_c s) \<noteq> None"
    using due by (auto simp: ev_def end_due_def awaitEnd_def split: list.splits)
  then show "\<exists>ev reason c. awaitEnd d (cs_bridgeDone s) (cs_mediaErr s) (cs_talked s) ev (cs_c s) = Some (reason, c)" by auto
next
  assume "\<exists>ev reason c. awaitEnd d (cs_bridgeDone s) (cs_mediaErr s) (cs_talked s) ev (cs_c s) = Some (reason, c)"
  then obtain ev reason c where "awaitEnd d (cs_bridgeDone s) (cs_mediaErr s) (cs_talked s) ev (cs_c s) = Some (reason, c)" by blast
  then show "end_due d s" by (cases ev) (auto simp: end_due_def awaitEnd_def split: if_splits list.splits)
qed

lemma run_step_enabled:
  assumes "3 < prank (cs_pc s)" "cs_pc s = P_talk \<Longrightarrow> end_due d s"
  shows "\<exists>t. run_step d s t"
proof (cases "cs_pc s")
  case P_talk
  then show ?thesis using assms(2) awaitEnd_due [of d s] run_step.ends by blast
qed (use assms(1) in \<open>auto intro: run_step.intros\<close>)

text \<open>A user hang-up that comes before the decision of \<open>cleanup\<close> keeps Meta from being told.\<close>

definition spared :: "csys \<Rightarrow> bool" where
  "spared s \<longleftrightarrow> ca_userTerminated (cs_c s) \<and> \<not> ca_terminate (cs_c s) \<and> cs_terminates s = 0 \<and> cs_pc s \<noteq> P_terminate True"

lemma spared_step: "cstep d s t \<Longrightarrow> spared s \<Longrightarrow> spared t"
  unfolding cstep_def
proof (elim disjE)
  show "run_step d s t \<Longrightarrow> spared s \<Longrightarrow> spared t"
    by (erule run_step.cases; (elim awaitEnd_cases)?; auto simp: spared_def call_op_defs)
  show "ext_step s t \<Longrightarrow> spared s \<Longrightarrow> spared t"
    by (erule ext_step.cases; (elim call_Connect_cases)?; auto simp: spared_def call_op_defs)
qed

lemma spared_steps: "(cstep d)\<^sup>*\<^sup>* s t \<Longrightarrow> spared s \<Longrightarrow> spared t"
  by (induction rule: rtranclp_induct) (auto intro: spared_step)

section \<open>A concrete call\<close>

definition demo_params :: callParams where
  "demo_params = \<lparr>cp_PhoneID = ''1'', cp_APIToken = ''t'', cp_APIVersion = ''v20.0'', cp_CallID = ''wacid.1'', cp_SDP = ''v=0'',
     cp_RoomName = ''room'', cp_Identity = ''me'', cp_Name = [], cp_Metadata = [], cp_Wait = False, cp_Timeout = 0\<rparr>"

text \<open>An inbound call that was pre-accepted and then failed to connect its media.\<close>

definition demo_call :: call where "demo_call = new_inbound demo_params ''answer''"

definition demo_failed :: call where
  "demo_failed = signalReady (Some ErrCanceled) (fail ErrEOF (demo_call\<lparr>ca_bridge := True, ca_signaled := True\<rparr>))"

abbreviation dsys :: "call \<Rightarrow> call_pc \<Rightarrow> csys" where
  "dsys c pc \<equiv> (start_call c)\<lparr>cs_pc := pc\<rparr>"

lemma demo_media: "reach call_init (cstep d) (dsys (demo_call\<lparr>ca_bridge := True, ca_signaled := True\<rparr>) P_media)"
proof -
  let ?s0 = "start_call demo_call" and ?s1 = "dsys (demo_call\<lparr>ca_bridge := True\<rparr>) P_preaccept"
  have "reach call_init (cstep d) ?s0"
    by (rule reach_init) (auto simp: call_init_def demo_call_def)
  moreover have "cstep d ?s0 ?s1"
    using run_step.bridge_ok [of ?s0 d] by (simp add: cstep_def start_call_def demo_call_def new_inbound_def)
  ultimately have "reach call_init (cstep d) ?s1" by (rule reach_step)
  moreover have "cstep d ?s1 (dsys (demo_call\<lparr>ca_bridge := True, ca_signaled := True\<rparr>) P_media)"
    using run_step.preaccept_ok [of ?s1 d] by (simp add: cstep_def start_call_def)
  ultimately show ?thesis by (rule reach_step)
qed

text \<open>The same call connected and talking, for no time yet.\<close>

abbreviation talking :: csys where
  "talking \<equiv> (dsys (signalReady None (demo_call\<lparr>ca_bridge := True, ca_signaled := True\<rparr>)) P_talk)\<lparr>cs_connected := True\<rparr>"

lemma demo_talking: "reach call_init (cstep d) talking"
proof -
  let ?c = "demo_call\<lparr>ca_bridge := True, ca_signaled := True\<rparr>"
  have "cstep d (dsys ?c P_media) (dsys ?c P_accept)"
    using run_step.media_ok [of "dsys ?c P_media" d] by (simp add: cstep_def start_call_def demo_call_def new_inbound_def)
  with demo_media have "reach call_init (cstep d) (dsys ?c P_accept)" by (rule reach_step)
  moreover have "cstep d (dsys ?c P_accept) (dsys ?c P_connected)"
    using run_step.accept_ok [of "dsys ?c P_accept" d] by (simp add: cstep_def start_call_def)
  ultimately have "reach call_init (cstep d) (dsys ?c P_connected)" by (rule reach_step)
  moreover have "cstep d (dsys ?c P_connected) talking"
    using run_step.connected [of "dsys ?c P_connected" d] by (simp add: cstep_def start_call_def)
  ultimately show ?thesis by (rule reach_step)
qed

lemma demo_deleted:
  "reach call_init (cstep d) (dsys demo_failed P_delete\<lparr>cs_terminates := 1, cs_bridgeClosed := True, cs_socketClosed := True\<rparr>)"
proof -
  let ?c = "demo_call\<lparr>ca_bridge := True, ca_signaled := True\<rparr>"
  have "cstep d (dsys ?c P_media) (dsys (fail ErrEOF ?c) P_cleanup)"
    using run_step.step_failed [of "dsys ?c P_media" d ErrEOF] by (simp add: cstep_def failed_def start_call_def)
  with demo_media have "reach call_init (cstep d) (dsys (fail ErrEOF ?c) P_cleanup)" by (rule reach_step)
  moreover have "cstep d (dsys (fail ErrEOF ?c) P_cleanup) (dsys demo_failed P_decide)"
    using run_step.cleanup_ready [of "dsys (fail ErrEOF ?c) P_cleanup" d] by (simp add: cstep_def start_call_def demo_failed_def)
  ultimately have "reach call_init (cstep d) (dsys demo_failed P_decide)" by (rule reach_step)
  moreover have "must_terminate demo_failed"
    by (simp add: must_terminate_def demo_failed_def call_op_defs demo_call_def new_inbound_def)
  then have "cstep d (dsys demo_failed P_decide) (dsys demo_failed (P_terminate True))"
    using run_step.decide [of "dsys demo_failed P_decide" d] by (simp add: cstep_def start_call_def)
  ultimately have "reach call_init (cstep d) (dsys demo_failed (P_terminate True))" by (rule reach_step)
  moreover have "cstep d (dsys demo_failed (P_terminate True)) (dsys demo_failed P_close\<lparr>cs_terminates := 1\<rparr>)"
    using run_step.terminate [of "dsys demo_failed (P_terminate True)" True d] by (simp add: cstep_def start_call_def)
  ultimately have "reach call_init (cstep d) (dsys demo_failed P_close\<lparr>cs_terminates := 1\<rparr>)" by (rule reach_step)
  moreover have "ca_bridge demo_failed" "ca_transport demo_failed"
    by (simp_all add: demo_failed_def call_op_defs demo_call_def new_inbound_def)
  then have "cstep d (dsys demo_failed P_close\<lparr>cs_terminates := 1\<rparr>)
      (dsys demo_failed P_delete\<lparr>cs_terminates := 1, cs_bridgeClosed := True, cs_socketClosed := True\<rparr>)"
    using run_step.close_all [of "dsys demo_failed P_close\<lparr>cs_terminates := 1\<rparr>" d] by (simp add: cstep_def start_call_def)
  ultimately show ?thesis by (rule reach_step)
qed

section \<open>Properties\<close>

text \<open>
  C1: Meta is told to terminate a call exactly when it has to be, whatever fails and however
  disconnect requests interleave with the call: never twice, never for a call that Meta was
  not told about (pre-accepted or dialled), and always, by the time the call is removed, if
  Meta was told about it and the user has not hung up.
\<close>

theorem call_terminates_once:
  assumes "reach call_init (cstep d) s"
  shows "cs_terminates s \<le> 1 \<and> (cs_terminates s = 1 \<longrightarrow> ca_signaled (cs_c s)) \<and>
    (cs_pc s = P_delete \<and> ca_signaled (cs_c s) \<and> \<not> ca_userTerminated (cs_c s) \<longrightarrow> cs_terminates s = 1)"
  using a_call.reach_inv [OF assms] by (simp add: call_inv_def term_inv_def Let_def)

theorem call_terminates_once_witness:
  "cs_terminates (dsys demo_failed P_delete\<lparr>cs_terminates := 1, cs_bridgeClosed := True, cs_socketClosed := True\<rparr>) \<le> 1"
  using call_terminates_once [OF demo_deleted] by blast

text \<open>
  C9: A hang-up by the user is final: once it is recorded before the decision of \<open>cleanup\<close>, no
  later event (a business disconnect, the end of media, LiveKit or the agent leaving, a failed
  set-up step, shutdown) makes the connector terminate the call at Meta.
\<close>

theorem user_hangup_final:
  assumes "reach call_init (cstep d) s" "ca_userTerminated (cs_c s)" "6 \<le> prank (cs_pc s)" "(cstep d)\<^sup>*\<^sup>* s t"
  shows "cs_terminates t = 0 \<and> ca_userTerminated (cs_c t)"
proof -
  have "call_inv s" using a_call.reach_inv [OF assms(1)] .
  with assms(2,3) have "spared s" by (auto simp: call_inv_def flag_inv_def term_inv_def spared_def Let_def)
  with spared_steps [OF assms(4)] show ?thesis by (simp add: spared_def)
qed

theorem user_hangup_final_witness:
  "cs_terminates (dsys (stopBusiness (stopUser (demo_call\<lparr>ca_bridge := True, ca_signaled := True\<rparr>))) P_media) = 0"
proof -
  let ?s = "dsys (demo_call\<lparr>ca_bridge := True, ca_signaled := True\<rparr>) P_media"
  let ?u = "?s\<lparr>cs_c := stopUser (cs_c ?s)\<rparr>"
  have "reach call_init (cstep 1) ?u"
    by (rule reach_steps [OF ext_csteps [OF stop_user_steps] demo_media])
  moreover have "(cstep 1)\<^sup>*\<^sup>* ?u (?u\<lparr>cs_c := stopBusiness (cs_c ?u)\<rparr>)"
    by (rule ext_csteps [OF stop_business_steps])
  ultimately show ?thesis
    using user_hangup_final [of 1 ?u] by (auto simp: call_op_defs start_call_def)
qed

text \<open>
  C27: Waiters get the truth exactly once: \<open>ready\<close> is closed at most once, \<open>wait\<close> returns nil
  only if the call was connected and always then, and when the call is removed no waiter is
  left blocked.
\<close>

theorem call_ready_truthful:
  assumes "reach call_init (cstep d) s"
  shows "ca_ready (cs_c s) \<le> 1 \<and> (call_wait True ctx (cs_c s) = Some None \<longleftrightarrow> cs_connected s) \<and>
    (cs_pc s = P_delete \<longrightarrow> call_wait f None (cs_c s) \<noteq> None)"
  using a_call.reach_inv [OF assms]
  by (auto simp: call_inv_def call_ready_inv_def call_wait_def Let_def split: option.splits)

theorem call_ready_truthful_witness:
  "call_wait True None demo_failed \<noteq> Some None \<and> call_wait True None demo_failed \<noteq> None"
  using call_ready_truthful [OF demo_deleted [of 1], of None True] by (simp add: start_call_def)

text \<open>
  C26: With a maximum duration every call ends and releases what it holds, even if nobody
  disconnects it, the bridge stays up and the media goes on: until the call is removed its
  goroutine can take a step, except while a connected call has talked for less than the
  maximum duration; each of its steps lowers a rank that nothing else changes (so it takes at
  most ten of them), the time talked never goes back, and at the end the socket is closed and
  so is the LiveKit bridge if there was one. (The calls to LiveKit, to Meta and of the
  transport are taken to return, with an error if need be.)
\<close>

theorem call_always_ends:
  assumes "reach call_init (cstep d) s" "0 < d"
  shows "(3 < prank (cs_pc s) \<and> (cs_pc s = P_talk \<longrightarrow> d \<le> cs_talked s) \<longrightarrow> (\<exists>t. run_step d s t)) \<and>
    (\<forall>t. run_step d s t \<longrightarrow> prank (cs_pc t) < prank (cs_pc s)) \<and>
    (\<forall>t. ext_step s t \<longrightarrow> cs_pc t = cs_pc s \<and> cs_talked s \<le> cs_talked t) \<and>
    (cs_pc s = P_delete \<longrightarrow> cs_socketClosed s \<and> cs_bridgeClosed s = ca_bridge (cs_c s))"
proof -
  have "res_inv s" using a_call.reach_inv [OF assms(1)] by (simp add: call_inv_def)
  then have "cs_pc s = P_delete \<longrightarrow> cs_socketClosed s \<and> cs_bridgeClosed s = ca_bridge (cs_c s)"
    by (simp add: res_inv_def Let_def)
  moreover have "\<exists>t. run_step d s t" if "3 < prank (cs_pc s)" "cs_pc s = P_talk \<longrightarrow> d \<le> cs_talked s"
    using run_step_enabled [of s d] that assms(2) by (auto simp: end_due_def)
  ultimately show ?thesis using prank_run prank_ext talked_ext by blast
qed

theorem call_always_ends_witness:
  "\<exists>t. run_step 1 (talking\<lparr>cs_talked := 1\<rparr>) t"
proof -
  have "cstep 1 talking (talking\<lparr>cs_talked := 1\<rparr>)"
    using ext_step.elapse [of talking 1] by (simp add: cstep_def start_call_def)
  with demo_talking have "reach call_init (cstep 1) (talking\<lparr>cs_talked := 1\<rparr>)" by (rule reach_step)
  from call_always_ends [OF this] show ?thesis by (simp add: start_call_def)
qed

end
