(* ===== verification/Relay.thy ===== *)
theory Relay
  imports MediaPath Bridge Call
begin

text \<open>
  \<open>connected\<close> of \<open>internal/call/manager.go\<close>: while a call is up, one goroutine copies packets
  from \<open>Transport.ReadRTP\<close> to \<open>Bridge.WriteFromMeta\<close> until one of them fails and then reports
  the error on a channel of capacity one; the call's own goroutine waits in \<open>awaitEnd\<close>.
  \<open>relay_step\<close> composes the stream readers (theory \<open>MediaPath\<close>), the copy loop, the bridge with
  its forwarders and room callbacks (theory \<open>Bridge\<close>), the call with the requests that
  other goroutines make (theory \<open>Call\<close>), and the passing of time, which both the timer of
  \<open>ReadRTP\<close> and that of \<open>awaitEnd\<close> measure.
\<close>

section \<open>State\<close>

text \<open>The copy loop: about to read, holding a packet that it is about to write, or returned.\<close>

datatype copy_pc = L_read | L_write rtp_packet | L_stopped

text \<open>The channel \<open>errCh\<close> is \<open>cs_mediaErr\<close> of the call, the bridge's \<open>done\<close> its \<open>cs_bridgeDone\<close>.
  \<open>rl_silent\<close> is the time since the \<open>ReadRTP\<close> in progress was entered. As history: the reason
  \<open>awaitEnd\<close> returned with the call as it was then, the packets handed to \<open>WriteFromMeta\<close> with
  the time, and the packets that \<open>WriteFromMeta\<close> handed to the LiveKit track.\<close>

record relay_sys =
  rl_p :: pump_sys
  rl_b :: bridge
  rl_pc :: copy_pc
  rl_s :: csys
  rl_silent :: duration
  rl_end :: "(string \<times> csys) option"
  rl_out :: "(rtp_packet \<times> go_time) list"
  rl_sent :: "rtp_packet list"

text \<open>The start of the copy loop: the call has just been connected, the stream readers may
  already have run, and nobody has read from the queue or written to the track.\<close>

definition relay_init :: "duration \<Rightarrow> relay_sys \<Rightarrow> bool" where
  "relay_init d s \<longleftrightarrow> reach pump_init pump_step (rl_p s) \<and> pu_read (rl_p s) = [] \<and>
     br_local (rl_b s) \<and> br_inbound (rl_b s) = rb_zero False \<and> br_rxPackets (rl_b s) = 0 \<and>
     rl_pc s = L_read \<and> reach call_init (cstep d) (rl_s s) \<and> cs_pc (rl_s s) = P_talk \<and> cs_connected (rl_s s) \<and>
     ca_bridge (cs_c (rl_s s)) \<and> cs_bridgeDone (rl_s s) = (0 < br_done (rl_b s)) \<and> cs_mediaErr (rl_s s) = [] \<and>
     cs_talked (rl_s s) = 0 \<and> rl_silent s = 0 \<and> rl_end s = None \<and> rl_out s = [] \<and> rl_sent s = []"

section \<open>Steps\<close>

text \<open>One round of the loop after the read: the error, if the loop ends, and the new state of the
  loop. A failed read ends it in the same way.\<close>

definition copy_failed :: "go_error \<Rightarrow> relay_sys \<Rightarrow> relay_sys" where
  "copy_failed e s = s\<lparr>rl_s := (rl_s s)\<lparr>cs_mediaErr := cs_mediaErr (rl_s s) @ [e]\<rparr>, rl_pc := L_stopped\<rparr>"

definition copy_write :: "go_error option \<Rightarrow> go_time \<Rightarrow> rtp_packet \<Rightarrow> relay_sys \<Rightarrow> relay_sys" where
  "copy_write ans now p s =
     (case WriteFromMeta ans now p (rl_b s) of
        (r, qs, b) \<Rightarrow>
          let s1 = s\<lparr>rl_b := b, rl_out := rl_out s @ [(p, now)], rl_sent := rl_sent s @ qs\<rparr>
          in (case r of Some e \<Rightarrow> copy_failed e s1 | None \<Rightarrow> s1\<lparr>rl_pc := L_read, rl_silent := 0\<rparr>))"

text \<open>When \<open>Wait\<close> and the branches of the \<open>select\<close> in \<open>ReadRTP\<close> are ready, as far as the media path
  cannot tell: the transport of a connected call is ready without an error, its context ends
  with that of the call, and the timer fires after the media timeout.\<close>

definition read_ready :: "go_error option \<Rightarrow> wakeup \<Rightarrow> relay_sys \<Rightarrow> bool" where
  "read_ready wait w s =
     (case wait of
        Some e \<Rightarrow> e = ErrCanceled \<and> ca_cancelled (cs_c (rl_s s))
      | None \<Rightarrow>
          (case w of
             W_packet \<Rightarrow> True
           | W_expired \<Rightarrow> mp_mediaTimeout (pu_m (rl_p s)) \<le> rl_silent s
           | W_pumpDone \<Rightarrow> True
           | W_ctx e \<Rightarrow> e = ErrCanceled \<and> ca_cancelled (cs_c (rl_s s))))"

text \<open>The bridge after an operation that may have closed \<open>done\<close>, and the passing of time.\<close>

definition with_bridge :: "bridge \<Rightarrow> relay_sys \<Rightarrow> relay_sys" where
  "with_bridge b s = s\<lparr>rl_b := b, rl_s := (rl_s s)\<lparr>cs_bridgeDone := (0 < br_done b)\<rparr>\<rparr>"

definition elapsed :: "duration \<Rightarrow> csys \<Rightarrow> csys" where
  "elapsed dt s = (if cs_pc s = P_talk then s\<lparr>cs_talked := cs_talked s + dt\<rparr> else s)"

inductive relay_step :: "duration \<Rightarrow> relay_sys \<Rightarrow> relay_sys \<Rightarrow> bool" for d where
  reader: "pump_step (rl_p s) p \<Longrightarrow> pu_read p = pu_read (rl_p s) \<Longrightarrow> relay_step d s (s\<lparr>rl_p := p\<rparr>)"
| read: "rl_pc s = L_read \<Longrightarrow> ReadRTP None True W_packet (pu_m (rl_p s)) = Some (Inr p, m) \<Longrightarrow>
    relay_step d s (s\<lparr>rl_p := (rl_p s)\<lparr>pu_m := m, pu_read := pu_read (rl_p s) @ [p]\<rparr>, rl_pc := L_write p\<rparr>)"
| read_failed: "rl_pc s = L_read \<Longrightarrow> read_ready wait w s \<Longrightarrow> ReadRTP wait True w (pu_m (rl_p s)) = Some (Inl e, m) \<Longrightarrow>
    relay_step d s (copy_failed e (s\<lparr>rl_p := (rl_p s)\<lparr>pu_m := m\<rparr>\<rparr>))"
| written: "rl_pc s = L_write p \<Longrightarrow> relay_step d s (copy_write ans now p s)"
| agent: "fwd_step f g \<Longrightarrow> fw_b f = rl_b s \<Longrightarrow> relay_step d s (with_bridge (fw_b g) s)"
| room_left: "onDisconnected (rl_b s) = (x, b) \<Longrightarrow> relay_step d s (with_bridge b s)"
| participant_left: "onParticipantDisconnected k (rl_b s) = (x, b) \<Longrightarrow> relay_step d s (with_bridge b s)"
| request: "ext_step (rl_s s) t \<Longrightarrow> cs_bridgeDone t = cs_bridgeDone (rl_s s) \<Longrightarrow> cs_mediaErr t = cs_mediaErr (rl_s s) \<Longrightarrow>
    cs_talked t = cs_talked (rl_s s) \<Longrightarrow> relay_step d s (s\<lparr>rl_s := t\<rparr>)"
| elapse: "0 < dt \<Longrightarrow> relay_step d s (s\<lparr>rl_s := elapsed dt (rl_s s), rl_silent := rl_silent s + dt\<rparr>)"
| await: "cs_pc (rl_s s) = P_talk \<Longrightarrow>
    awaitEnd d (cs_bridgeDone (rl_s s)) (cs_mediaErr (rl_s s)) (cs_talked (rl_s s)) ev (cs_c (rl_s s)) = Some (reason, c) \<Longrightarrow>
    relay_step d s (s\<lparr>rl_s := (rl_s s)\<lparr>cs_c := c, cs_pc := P_cleanup, cs_mediaErr := received ev (cs_mediaErr (rl_s s))\<rparr>,
      rl_end := Some (reason, rl_s s)\<rparr>)"
| cleanup: "cs_pc (rl_s s) \<noteq> P_talk \<Longrightarrow> run_step d (rl_s s) t \<Longrightarrow> relay_step d s (s\<lparr>rl_s := t\<rparr>)"
| bridge_closed: "cs_pc (rl_s s) \<noteq> P_talk \<Longrightarrow> relay_step d s (with_bridge (snd (bridge_Close (rl_b s))) s)"

section \<open>What the caller's audio becomes\<close>

text \<open>A whole stream through \<open>WriteFromMeta\<close>, each packet with its own payload type.\<close>

fun relay_run :: "(rtp_packet \<times> go_time) list \<Rightarrow> rtpRebaser \<Rightarrow> rtpRebaser \<times> rtp_packet list" where
  "relay_run [] r = (r, [])"
| "relay_run ((p, now) # ps) r =
     (case rb_rewrite now (p_payloadType p) p (r\<lparr>rb_keepExtensions := True\<rparr>) of
        (r1, q) \<Rightarrow> (case relay_run ps r1 of (r2, qs) \<Rightarrow> (r2, q # qs)))"

lemma relay_run_snoc:
  "relay_run (ps @ [(p, now)]) r =
     (case relay_run ps r of
        (r1, qs) \<Rightarrow> (case rb_rewrite now (p_payloadType p) p (r1\<lparr>rb_keepExtensions := True\<rparr>) of (r2, q) \<Rightarrow> (r2, qs @ [q])))"
proof (induction ps arbitrary: r)
  case (Cons x ps)
  obtain p' now' where "x = (p', now')" by (cases x)
  with Cons.IH show ?case by (simp split: prod.splits)
qed (simp split: prod.splits)

text \<open>What a rewritten packet keeps.\<close>

definition audio_of :: "rtp_packet \<Rightarrow> u8 \<times> u8 list \<times> bool \<times> (u8 \<times> u8 list) list" where
  "audio_of p = (p_payloadType p, p_payload p, p_extension p, p_extensions p)"

lemma relay_packet_audio:
  assumes "rb_rewrite now (p_payloadType p) p (r\<lparr>rb_keepExtensions := True\<rparr>) = (r', q)"
  shows "audio_of q = audio_of p"
  using rb_rewrite_packet [OF assms] rb_rewrite_extensions [OF assms] by (simp add: audio_of_def)

lemma relay_run_audio: "map audio_of (snd (relay_run ps r)) = map (audio_of \<circ> fst) ps"
proof (induction ps arbitrary: r)
  case (Cons x ps)
  obtain p now where x: "x = (p, now)" by (cases x)
  obtain r1 q where "rb_rewrite now (p_payloadType p) p (r\<lparr>rb_keepExtensions := True\<rparr>) = (r1, q)" by fastforce
  with Cons.IH [of r1] relay_packet_audio [OF this] x show ?case by (auto split: prod.splits)
qed simp

section \<open>Projections\<close>

text \<open>Every step of the composition is a step of the inbound queue and of the call, or leaves
  them alone.\<close>

lemma ReadRTP_Inl: "ReadRTP wait srtp w m = Some (Inl e, m') \<Longrightarrow> m' = m"
  by (auto simp: ReadRTP_def split: option.splits wakeup.splits list.splits if_splits)

lemma relay_pump: "relay_step d s t \<Longrightarrow> pump_step\<^sup>*\<^sup>* (rl_p s) (rl_p t)"
proof (erule relay_step.cases)
  fix sa p m
  assume "s = sa" "t = sa\<lparr>rl_p := (rl_p sa)\<lparr>pu_m := m, pu_read := pu_read (rl_p sa) @ [p]\<rparr>, rl_pc := L_write p\<rparr>"
    "ReadRTP None True W_packet (pu_m (rl_p sa)) = Some (Inr p, m)"
  then show ?thesis using pump_step.consume [of "rl_p sa" p m] by auto
qed (auto simp: copy_failed_def copy_write_def with_bridge_def Let_def dest: ReadRTP_Inl split: prod.splits option.splits)

text \<open>What holds of the call as long as it is up and afterwards: it has a bridge, whose \<open>done\<close> it sees,
  and the error channel holds an error only after the copy loop has stopped.\<close>

definition up_inv :: "relay_sys \<Rightarrow> bool" where
  "up_inv s \<longleftrightarrow> cs_connected (rl_s s) \<and> ca_bridge (cs_c (rl_s s)) \<and> cs_bridgeDone (rl_s s) = (0 < br_done (rl_b s)) \<and>
     (rl_pc s \<noteq> L_stopped \<longrightarrow> cs_mediaErr (rl_s s) = [])"

lemma bridge_ops_done:
  "onDisconnected b = (x, b') \<Longrightarrow> br_done b \<le> br_done b'"
  "onParticipantDisconnected k b = (x, b') \<Longrightarrow> br_done b \<le> br_done b'"
  "br_done b \<le> br_done (snd (bridge_Close b))"
  "WriteFromMeta ans now p b = (r, qs, b') \<Longrightarrow> br_done b' = br_done b"
  by (auto simp: onDisconnected_def onParticipantDisconnected_def bridge_Close_def closeDone_def WriteFromMeta_def Let_def
      split: if_splits prod.splits)

lemma with_bridge_call:
  assumes "up_inv s" "br_done (rl_b s) \<le> br_done b"
  shows "(cstep d)\<^sup>*\<^sup>* (rl_s s) (rl_s (with_bridge b s)) \<and> up_inv (with_bridge b s)"
proof (cases "cs_bridgeDone (rl_s s) \<longleftrightarrow> 0 < br_done b")
  case True
  then have "rl_s (with_bridge b s) = rl_s s" by (simp add: with_bridge_def)
  moreover from this have "up_inv (with_bridge b s)" using assms True by (simp add: up_inv_def) (simp add: with_bridge_def)
  ultimately show ?thesis by simp
next
  case False
  then have "0 < br_done b" using assms by (auto simp: up_inv_def)
  then have "ext_step (rl_s s) (rl_s (with_bridge b s))"
    using ext_step.bridge_done [of "rl_s s"] assms(1) by (simp add: up_inv_def with_bridge_def)
  then show ?thesis using assms(1) by (auto simp: cstep_def up_inv_def with_bridge_def)
qed

lemma copy_failed_call:
  assumes "up_inv s" "rl_pc s \<noteq> L_stopped"
  shows "(cstep d)\<^sup>*\<^sup>* (rl_s s) (rl_s (copy_failed e s)) \<and> up_inv (copy_failed e s)"
proof -
  have "ext_step (rl_s s) (rl_s (copy_failed e s))"
    using ext_step.media_failed [of "rl_s s" e] assms by (simp add: up_inv_def copy_failed_def)
  then show ?thesis using assms by (auto simp: cstep_def up_inv_def copy_failed_def)
qed

lemma copy_write_call:
  assumes "up_inv s" "rl_pc s = L_write p"
  shows "(cstep d)\<^sup>*\<^sup>* (rl_s s) (rl_s (copy_write ans now p s)) \<and> up_inv (copy_write ans now p s)"
proof -
  obtain r qs b where w: "WriteFromMeta ans now p (rl_b s) = (r, qs, b)" by (cases "WriteFromMeta ans now p (rl_b s)") auto
  let ?s1 = "s\<lparr>rl_b := b, rl_out := rl_out s @ [(p, now)], rl_sent := rl_sent s @ qs\<rparr>"
  have up: "up_inv ?s1" using assms(1) bridge_ops_done(4) [OF w] by (simp add: up_inv_def)
  have "rl_pc ?s1 \<noteq> L_stopped" using assms(2) by simp
  note copy_failed_call [OF up this, of d]
  with up w assms(2) show ?thesis by (auto simp: copy_write_def Let_def up_inv_def split: option.splits)
qed

lemma run_step_up:
  "run_step d s t \<Longrightarrow> cs_pc s \<noteq> P_talk \<Longrightarrow> (ca_bridge (cs_c s) \<longrightarrow> ca_bridge (cs_c t)) \<and> (cs_connected s \<longrightarrow> cs_connected t) \<and>
     cs_bridgeDone t = cs_bridgeDone s \<and> cs_mediaErr t = cs_mediaErr s"
  by (erule run_step.cases; simp add: call_op_defs)

lemma ext_step_up: "ext_step s t \<Longrightarrow> (ca_bridge (cs_c s) \<longrightarrow> ca_bridge (cs_c t)) \<and> (cs_connected s \<longrightarrow> cs_connected t)"
  by (erule ext_step.cases; (elim call_Connect_cases)?; simp add: call_op_defs)

lemma await_call:
  assumes "up_inv s" "cs_pc (rl_s s) = P_talk"
    and a: "awaitEnd d (cs_bridgeDone (rl_s s)) (cs_mediaErr (rl_s s)) (cs_talked (rl_s s)) ev (cs_c (rl_s s)) = Some (reason, c)"
  defines "t \<equiv> s\<lparr>rl_s := (rl_s s)\<lparr>cs_c := c, cs_pc := P_cleanup, cs_mediaErr := received ev (cs_mediaErr (rl_s s))\<rparr>,
      rl_end := Some (reason, rl_s s)\<rparr>"
  shows "(cstep d)\<^sup>*\<^sup>* (rl_s s) (rl_s t) \<and> up_inv t"
proof -
  have "run_step d (rl_s s) (rl_s t)" using run_step.ends [OF assms(2) a] by (simp add: t_def)
  moreover have "ca_bridge c" using assms(1) by (rule_tac awaitEnd_cases [OF a]) (auto simp: up_inv_def call_op_defs)
  ultimately show ?thesis using assms(1) by (auto simp: cstep_def up_inv_def t_def received_def split: end_event.splits)
qed

lemma relay_call:
  assumes "relay_step d s t" "up_inv s"
  shows "(cstep d)\<^sup>*\<^sup>* (rl_s s) (rl_s t) \<and> up_inv t"
  using assms(1)
proof (cases rule: relay_step.cases)
  case (read_failed wait w e m)
  then show ?thesis using copy_failed_call [of "s\<lparr>rl_p := (rl_p s)\<lparr>pu_m := m\<rparr>\<rparr>" d e] assms(2) by (simp add: up_inv_def)
next
  case (written p ans now)
  then show ?thesis using copy_write_call [OF assms(2)] by simp
next
  case (agent f g)
  then show ?thesis using with_bridge_call [OF assms(2), of "fw_b g"] fwd_step_inbound [of f g] by simp
next
  case (room_left x b)
  then show ?thesis using with_bridge_call [OF assms(2) bridge_ops_done(1)] by simp
next
  case (participant_left k x b)
  then show ?thesis using with_bridge_call [OF assms(2) bridge_ops_done(2)] by simp
next
  case bridge_closed
  then show ?thesis using with_bridge_call [OF assms(2) bridge_ops_done(3)] by simp
next
  case (request u)
  with ext_step_up [OF request(2)] assms(2) show ?thesis by (auto simp: cstep_def up_inv_def)
next
  case (elapse dt)
  then show ?thesis using assms(2) ext_step.elapse [of "rl_s s" dt] by (auto simp: cstep_def up_inv_def elapsed_def)
next
  case (await ev reason c)
  then show ?thesis using await_call [OF assms(2) await(2,3)] by simp
next
  case (cleanup u)
  with run_step_up [OF cleanup(3,2)] assms(2) show ?thesis by (auto simp: cstep_def up_inv_def)
qed (use assms(2) in \<open>auto simp: up_inv_def\<close>)

section \<open>Invariant\<close>

definition held_packet :: "copy_pc \<Rightarrow> rtp_packet list" where
  "held_packet pc = (case pc of L_write p \<Rightarrow> [p] | _ \<Rightarrow> [])"

text \<open>The copy loop and the bridge.\<close>

definition copy_inv :: "relay_sys \<Rightarrow> bool" where
  "copy_inv s \<longleftrightarrow> pu_read (rl_p s) = map fst (rl_out s) @ held_packet (rl_pc s) \<and> br_local (rl_b s) \<and>
     br_rxPackets (rl_b s) = of_nat (length (rl_out s)) \<and>
     relay_run (rl_out s) (rb_zero False) = (br_inbound (rl_b s), rl_sent s)"

text \<open>Bridge operations other than \<open>WriteFromMeta\<close> keep what the copy loop relies on.\<close>

definition caller_side :: "bridge \<Rightarrow> bool \<times> rtpRebaser \<times> u64" where
  "caller_side b = (br_local b, br_inbound b, br_rxPackets b)"

lemma caller_side_ops:
  "fwd_step f g \<Longrightarrow> caller_side (fw_b g) = caller_side (fw_b f)"
  "onDisconnected b = (x, b') \<Longrightarrow> caller_side b' = caller_side b"
  "onParticipantDisconnected k b = (x, b') \<Longrightarrow> caller_side b' = caller_side b"
  "caller_side (snd (bridge_Close b)) = caller_side b"
  using fwd_step_inbound [of f g]
  by (auto simp: caller_side_def onDisconnected_def onParticipantDisconnected_def bridge_Close_def closeDone_def split: if_splits)

lemma copy_inv_bridge: "copy_inv s \<Longrightarrow> caller_side b = caller_side (rl_b s) \<Longrightarrow> copy_inv (with_bridge b s)"
  by (simp add: copy_inv_def caller_side_def with_bridge_def)

lemma copy_inv_write:
  assumes "copy_inv s" "rl_pc s = L_write p"
  shows "copy_inv (copy_write ans now p s)"
proof -
  obtain r q where rq: "rb_rewrite now (p_payloadType p) p ((br_inbound (rl_b s))\<lparr>rb_keepExtensions := True\<rparr>) = (r, q)"
    by fastforce
  with assms show ?thesis
    by (auto simp: copy_inv_def copy_write_def WriteFromMeta_def copy_failed_def held_packet_def relay_run_snoc Let_def
        split: option.splits)
qed

lemma copy_inv_step:
  assumes "relay_step d s t" "copy_inv s"
  shows "copy_inv t"
  using assms(1)
proof (cases rule: relay_step.cases)
  case (written p ans now)
  then show ?thesis using copy_inv_write [OF assms(2)] by simp
next
  case (agent f g)
  then show ?thesis using copy_inv_bridge [OF assms(2)] caller_side_ops(1) by simp
next
  case (room_left x b)
  then show ?thesis using copy_inv_bridge [OF assms(2)] caller_side_ops(2) by simp
next
  case (participant_left k x b)
  then show ?thesis using copy_inv_bridge [OF assms(2)] caller_side_ops(3) by simp
next
  case bridge_closed
  then show ?thesis using copy_inv_bridge [OF assms(2)] caller_side_ops(4) by simp
qed (use assms(2) in \<open>auto simp: copy_inv_def copy_failed_def held_packet_def dest: ReadRTP_Inl\<close>)

text \<open>A user hang-up is never forgotten.\<close>

lemma user_kept: "cstep d s t \<Longrightarrow> ca_userTerminated (cs_c s) \<Longrightarrow> ca_userTerminated (cs_c t)"
  unfolding cstep_def
proof (elim disjE)
  show "run_step d s t \<Longrightarrow> ca_userTerminated (cs_c s) \<Longrightarrow> ca_userTerminated (cs_c t)"
    by (erule run_step.cases; (elim awaitEnd_cases)?; auto simp: call_op_defs)
  show "ext_step s t \<Longrightarrow> ca_userTerminated (cs_c s) \<Longrightarrow> ca_userTerminated (cs_c t)"
    by (erule ext_step.cases; (elim call_Connect_cases)?; auto simp: call_op_defs)
qed

lemma user_kept_steps: "(cstep d)\<^sup>*\<^sup>* s t \<Longrightarrow> ca_userTerminated (cs_c s) \<Longrightarrow> ca_userTerminated (cs_c t)"
  by (induction rule: rtranclp_induct) (auto dest: user_kept)

text \<open>The reason of the end, against the call at that moment.\<close>

definition justified :: "duration \<Rightarrow> string \<Rightarrow> csys \<Rightarrow> bool" where
  "justified d reason c \<longleftrightarrow>
     (reason = ''media_stopped'' \<and> cs_mediaErr c \<noteq> []) \<or>
     (reason = ''livekit_disconnected_or_agent_left'' \<and> cs_bridgeDone c) \<or>
     (reason = ''user_hangup'' \<and> ca_cancelled (cs_c c) \<and> ca_userTerminated (cs_c c)) \<or>
     (reason = ''disconnect_requested'' \<and> ca_cancelled (cs_c c) \<and> \<not> ca_userTerminated (cs_c c)) \<or>
     (reason = ''max_duration'' \<and> 0 < d \<and> d \<le> cs_talked c)"

lemmas end_names = endMediaStopped_def endLiveKitClosed_def endUserHangup_def endMaxDuration_def endDisconnected_def

lemma awaitEnd_justified:
  assumes "awaitEnd d (cs_bridgeDone s) (cs_mediaErr s) (cs_talked s) ev (cs_c s) = Some (reason, c)"
  shows "justified d reason s \<and> (reason = ''media_stopped'' \<longleftrightarrow> ev = E_media)"
  using assms by (cases ev) (auto simp: awaitEnd_def justified_def end_names split: if_splits list.splits)

text \<open>The error channel and the record of the end.\<close>

definition end_inv :: "duration \<Rightarrow> relay_sys \<Rightarrow> bool" where
  "end_inv d s \<longleftrightarrow> prank (cs_pc (rl_s s)) \<le> 8 \<and> length (cs_mediaErr (rl_s s)) \<le> 1 \<and>
     (case rl_end s of
        None \<Rightarrow> cs_pc (rl_s s) = P_talk \<and> (rl_pc s = L_stopped \<longrightarrow> cs_mediaErr (rl_s s) \<noteq> [])
      | Some (reason, c) \<Rightarrow> cs_pc (rl_s s) \<noteq> P_talk \<and> justified d reason c \<and> (cs_mediaErr c \<noteq> [] \<longrightarrow> rl_pc s = L_stopped) \<and>
          (cs_bridgeDone c \<longrightarrow> 0 < br_done (rl_b s)) \<and> (ca_userTerminated (cs_c c) \<longrightarrow> ca_userTerminated (cs_c (rl_s s))) \<and>
          flag_inv c)"

definition relay_inv :: "duration \<Rightarrow> relay_sys \<Rightarrow> bool" where
  "relay_inv d s \<longleftrightarrow> pump_inv (rl_p s) \<and> order_inv (rl_p s) \<and> call_inv (rl_s s) \<and> copy_inv s \<and> up_inv s \<and> end_inv d s"

lemma end_inv_bridge: "end_inv d s \<Longrightarrow> br_done (rl_b s) \<le> br_done b \<Longrightarrow> end_inv d (with_bridge b s)"
  by (auto simp: end_inv_def with_bridge_def split: option.splits prod.splits)

lemma end_inv_failed:
  "end_inv d s \<Longrightarrow> cs_mediaErr (rl_s s) = [] \<Longrightarrow> end_inv d (copy_failed e s)"
  by (auto simp: end_inv_def copy_failed_def split: option.splits prod.splits)

lemma end_inv_write:
  assumes "end_inv d s" "up_inv s" "rl_pc s = L_write p"
  shows "end_inv d (copy_write ans now p s)"
proof -
  obtain r qs b where w: "WriteFromMeta ans now p (rl_b s) = (r, qs, b)" by (cases "WriteFromMeta ans now p (rl_b s)") auto
  let ?s1 = "s\<lparr>rl_b := b, rl_out := rl_out s @ [(p, now)], rl_sent := rl_sent s @ qs\<rparr>"
  have "end_inv d ?s1" using assms(1) bridge_ops_done(4) [OF w] by (simp add: end_inv_def split: option.splits prod.splits)
  moreover from this have "end_inv d (?s1\<lparr>rl_pc := L_read, rl_silent := 0\<rparr>)"
    using assms(3) by (auto simp: end_inv_def split: option.splits prod.splits)
  ultimately show ?thesis
    using w end_inv_failed [of d ?s1] assms(2,3) by (auto simp: copy_write_def Let_def up_inv_def split: option.splits)
qed

lemma end_inv_await:
  assumes "end_inv d s" "up_inv s" "call_inv (rl_s s)" "cs_pc (rl_s s) = P_talk"
    and a: "awaitEnd d (cs_bridgeDone (rl_s s)) (cs_mediaErr (rl_s s)) (cs_talked (rl_s s)) ev (cs_c (rl_s s)) = Some (reason, c)"
  shows "end_inv d (s\<lparr>rl_s := (rl_s s)\<lparr>cs_c := c, cs_pc := P_cleanup, cs_mediaErr := received ev (cs_mediaErr (rl_s s))\<rparr>,
      rl_end := Some (reason, rl_s s)\<rparr>)"
proof -
  have "ca_userTerminated (cs_c (rl_s s)) \<longrightarrow> ca_userTerminated c"
    by (rule awaitEnd_cases [OF a]) (auto simp: call_op_defs)
  moreover have "length (received ev (cs_mediaErr (rl_s s))) \<le> 1"
    using assms(1) by (auto simp: end_inv_def received_def split: end_event.splits)
  moreover have "flag_inv (rl_s s)" using assms(3) by (simp add: call_inv_def)
  ultimately show ?thesis
    using awaitEnd_justified [OF a] assms(1,2,4) by (auto simp: end_inv_def up_inv_def split: option.splits)
qed

lemma end_inv_keeps:
  assumes "end_inv d s" "cstep d (rl_s s) t" "cs_mediaErr t = cs_mediaErr (rl_s s)"
    "cs_pc t = P_talk \<longleftrightarrow> cs_pc (rl_s s) = P_talk" "prank (cs_pc t) \<le> prank (cs_pc (rl_s s))"
  shows "end_inv d (s\<lparr>rl_s := t, rl_silent := x\<rparr>)"
  using assms user_kept [OF assms(2)] by (auto simp: end_inv_def split: option.splits prod.splits)

lemma end_inv_step:
  assumes "relay_step d s t" "end_inv d s" "up_inv s" "call_inv (rl_s s)"
  shows "end_inv d t"
  using assms(1)
proof (cases rule: relay_step.cases)
  case (read_failed wait w e m)
  moreover have "end_inv d (s\<lparr>rl_p := (rl_p s)\<lparr>pu_m := m\<rparr>\<rparr>)"
    using assms(2) by (auto simp: end_inv_def split: option.splits)
  ultimately show ?thesis using end_inv_failed [of d "s\<lparr>rl_p := (rl_p s)\<lparr>pu_m := m\<rparr>\<rparr>" e] assms(3) by (simp add: up_inv_def)
next
  case (written p ans now)
  then show ?thesis using end_inv_write [OF assms(2,3)] by simp
next
  case (agent f g)
  then show ?thesis using end_inv_bridge [OF assms(2), of "fw_b g"] fwd_step_inbound [of f g] by simp
next
  case (room_left x b)
  then show ?thesis using end_inv_bridge [OF assms(2) bridge_ops_done(1)] by simp
next
  case (participant_left k x b)
  then show ?thesis using end_inv_bridge [OF assms(2) bridge_ops_done(2)] by simp
next
  case bridge_closed
  then show ?thesis using end_inv_bridge [OF assms(2) bridge_ops_done(3)] by simp
next
  case (request u)
  have "end_inv d (s\<lparr>rl_s := u, rl_silent := rl_silent s\<rparr>)"
    by (rule end_inv_keeps [OF assms(2)]) (use request prank_ext [OF request(2)] in \<open>auto simp: cstep_def\<close>)
  with request(1) show ?thesis by simp
next
  case (elapse dt)
  then show ?thesis using assms(2) by (auto simp: end_inv_def elapsed_def split: option.splits)
next
  case (await ev reason c)
  then show ?thesis using end_inv_await [OF assms(2,3,4) await(2,3)] by simp
next
  case (cleanup u)
  have p: "prank (cs_pc u) < prank (cs_pc (rl_s s))" using prank_run [OF cleanup(3)] .
  moreover have "prank (cs_pc (rl_s s)) \<le> 8" using assms(2) by (simp add: end_inv_def)
  ultimately have "cs_pc u \<noteq> P_talk" by auto
  then have "end_inv d (s\<lparr>rl_s := u, rl_silent := rl_silent s\<rparr>)"
    by (intro end_inv_keeps [OF assms(2)]) (use cleanup p run_step_up [OF cleanup(3,2)] in \<open>auto simp: cstep_def\<close>)
  with cleanup(1) show ?thesis by simp
next
  case (read p m)
  then show ?thesis using assms(2) by (auto simp: end_inv_def split: option.splits)
qed (use assms(2) in \<open>auto simp: end_inv_def split: option.splits\<close>)

interpretation relay: safe_system "relay_init d" "relay_step d" "relay_inv d"
proof
  show "relay_init d s \<Longrightarrow> relay_inv d s" for s
    using pump.reach_inv [of "rl_p s"] pump_order.reach_inv [of "rl_p s"] a_call.reach_inv [of d "rl_s s"]
    by (auto simp: relay_init_def relay_inv_def copy_inv_def up_inv_def end_inv_def held_packet_def)
  show "relay_inv d s \<Longrightarrow> relay_step d s t \<Longrightarrow> relay_inv d t" for s t
    using relay_pump [of d s t] relay_call [of d s t] copy_inv_step [of d s t] end_inv_step [of d s t]
      pump.steps_inv [of "rl_p s" "rl_p t"] pump_order.steps_inv [of "rl_p s" "rl_p t"] a_call.steps_inv [of d "rl_s s" "rl_s t"]
    by (simp add: relay_inv_def)
qed

section \<open>A concrete call\<close>

text \<open>The copy loop with one packet in the queue, after it has read it, and after it has written it
  to the track.\<close>

definition demo_relay :: relay_sys where
  "demo_relay = \<lparr>rl_p = demo_pump1, rl_b = (newBridge 111)\<lparr>br_room := True, br_local := True\<rparr>, rl_pc = L_read,
     rl_s = talking, rl_silent = 0, rl_end = None, rl_out = [], rl_sent = []\<rparr>"

definition demo_relay1 :: relay_sys where
  "demo_relay1 = demo_relay\<lparr>rl_p := demo_pump1\<lparr>pu_m := (pu_m demo_pump1)\<lparr>mp_rtpIn := []\<rparr>, pu_read := [sample_packet 7 5 960]\<rparr>,
     rl_pc := L_write (sample_packet 7 5 960)\<rparr>"

lemma demo_relay_reach: "reach (relay_init d) (relay_step d) demo_relay"
proof (rule reach_init)
  have "pu_read demo_pump1 = []" by (simp add: demo_pump1_def demo_pump_def)
  moreover have "ca_bridge (cs_c talking)" by (simp add: call_op_defs start_call_def)
  moreover have "cs_mediaErr talking = []" "cs_talked talking = 0" "\<not> cs_bridgeDone talking" by (simp_all add: start_call_def)
  ultimately show "relay_init d demo_relay"
    using demo_talking [of d] by (simp add: relay_init_def demo_relay_def demo_pump1_reach newBridge_def)
qed

lemma demo_queue: "mp_rtpIn (pu_m demo_pump1) = [sample_packet 7 5 960]" "mp_mediaTimeout (pu_m demo_pump1) = second"
  by (simp_all add: demo_pump1_def readStream_recv_def newMediaPath_def demo_codec_def rtpQueueSize_def Let_def)

lemma demo_relay1_reach: "reach (relay_init d) (relay_step d) demo_relay1"
proof -
  have "relay_step d demo_relay demo_relay1"
    using relay_step.read [of demo_relay "sample_packet 7 5 960" "(pu_m demo_pump1)\<lparr>mp_rtpIn := []\<rparr>" d] demo_queue
    by (simp add: demo_relay1_def demo_relay_def ReadRTP_def demo_pump1_def demo_pump_def)
  with demo_relay_reach show ?thesis by (rule reach_step)
qed

lemma demo_relay2_reach: "reach (relay_init d) (relay_step d) (copy_write None 0 (sample_packet 7 5 960) demo_relay1)"
  by (rule reach_step [OF demo_relay1_reach relay_step.written]) (simp add: demo_relay1_def)

text \<open>The same copy loop after a second without a read, and after a call of that length has ended.\<close>

definition demo_silent :: relay_sys where
  "demo_silent = demo_relay\<lparr>rl_s := talking\<lparr>cs_talked := second\<rparr>, rl_silent := second\<rparr>"

lemma demo_silent_reach: "reach (relay_init d) (relay_step d) demo_silent"
proof -
  have "relay_step d demo_relay demo_silent"
    using relay_step.elapse [of second d demo_relay]
    by (simp add: demo_silent_def demo_relay_def elapsed_def start_call_def)
  with demo_relay_reach show ?thesis by (rule reach_step)
qed

lemma demo_capped: "\<exists>s c. reach (relay_init second) (relay_step second) s \<and> rl_end s = Some (endMaxDuration, c)"
proof -
  have "awaitEnd second (cs_bridgeDone (rl_s demo_silent)) (cs_mediaErr (rl_s demo_silent)) (cs_talked (rl_s demo_silent)) E_cap
      (cs_c (rl_s demo_silent)) = Some (endMaxDuration, stopBusiness (cs_c (rl_s demo_silent)))"
    by (simp add: awaitEnd_def demo_silent_def)
  from relay_step.await [OF _ this] reach_step [OF demo_silent_reach]
  show ?thesis by (fastforce simp: demo_silent_def)
qed

lemma demo_timed_out: "\<exists>s. reach (relay_init d) (relay_step d) s \<and> rl_pc s = L_stopped \<and> cs_pc (rl_s s) = P_talk"
proof -
  obtain e where e: "ReadRTP None True W_expired (pu_m (rl_p demo_silent)) = Some (Inl e, pu_m (rl_p demo_silent))"
    using demo_queue(2) by (cases "mp_sawRTP (pu_m demo_pump1)") (auto simp: ReadRTP_def demo_silent_def demo_relay_def)
  have "rl_pc demo_silent = L_read" "read_ready None W_expired demo_silent"
    using demo_queue(2) by (simp_all add: read_ready_def demo_silent_def demo_relay_def)
  from relay_step.read_failed [OF this e] reach_step [OF demo_silent_reach]
  show ?thesis by (fastforce simp: copy_failed_def demo_silent_def)
qed

section \<open>Properties\<close>

text \<open>
  C13: The caller's audio reaches LiveKit untouched, completely accounted for and in order,
  under every interleaving of stream readers, copy loop, agent audio, room events, requests
  and clean-up: the packets that \<open>WriteFromMeta\<close> hands to the track are the packets handed to it,
  rewritten one by one by a single rebaser that keeps extensions, and carry their payload,
  payload type and extensions; the packets handed to \<open>WriteFromMeta\<close>, with the one packet the loop
  may be holding, are exactly what was read; every packet that arrived was relayed, is held,
  queued or in the hands of a reader, or was counted as dropped; per source the relayed
  packets are in the order of arrival; and the bridge's counter counts them modulo \<open>2^64\<close>.
\<close>

theorem relay_faithful:
  assumes "reach (relay_init d) (relay_step d) s"
  shows "rl_sent s = snd (relay_run (rl_out s) (rb_zero False)) \<and>
    map audio_of (rl_sent s) = map (audio_of \<circ> fst) (rl_out s) \<and>
    pu_read (rl_p s) = map fst (rl_out s) @ held_packet (rl_pc s) \<and>
    mset (pu_arrived (rl_p s)) = mset (map fst (rl_out s)) + mset (held_packet (rl_pc s)) + mset (mp_rtpIn (pu_m (rl_p s))) +
      mset (pu_dropped (rl_p s)) + in_hand (pu_readers (rl_p s)) \<and>
    subseq (of_source k (map fst (rl_out s))) (of_source k (pu_arrived (rl_p s))) \<and>
    bs_RxPackets (bridge_Stats (rl_b s)) = of_nat (length (rl_out s))"
proof -
  have inv: "pump_inv (rl_p s)" "order_inv (rl_p s)" "copy_inv s"
    using relay.reach_inv [OF assms] by (auto simp: relay_inv_def)
  then have rd: "pu_read (rl_p s) = map fst (rl_out s) @ held_packet (rl_pc s)" by (simp add: copy_inv_def)
  have sent: "snd (relay_run (rl_out s) (rb_zero False)) = rl_sent s" using inv(3) by (simp add: copy_inv_def)
  with relay_run_audio have "map audio_of (rl_sent s) = map (audio_of \<circ> fst) (rl_out s)" by metis
  moreover have "subseq (of_source k (map fst (rl_out s) @ rest)) (of_source k (pu_arrived (rl_p s))) \<Longrightarrow>
      subseq (of_source k (map fst (rl_out s))) (of_source k (pu_arrived (rl_p s)))" for rest
    by (metis filter_append list_emb_append2 prefix_imp_subseq prefixI subseq_order.trans)
  then have "subseq (of_source k (map fst (rl_out s))) (of_source k (pu_arrived (rl_p s)))"
    using inv(2) rd unfolding order_inv_def by (metis append.assoc)
  ultimately show ?thesis using inv(1,3) rd sent by (simp add: pump_inv_def copy_inv_def bridge_Stats_def)
qed

theorem relay_faithful_witness:
  "map audio_of (rl_sent (copy_write None 0 (sample_packet 7 5 960) demo_relay1)) =
     map (audio_of \<circ> fst) (rl_out (copy_write None 0 (sample_packet 7 5 960) demo_relay1)) \<and>
   rl_out (copy_write None 0 (sample_packet 7 5 960) demo_relay1) = [(sample_packet 7 5 960, 0)]"
  using relay_faithful [OF demo_relay2_reach [of 1], of 7]
  by (simp add: copy_write_def demo_relay1_def demo_relay_def WriteFromMeta_def Let_def copy_failed_def split: prod.splits option.splits)

text \<open>
  C14: The logged reason for the end of a call is true at the moment the call ended, and there
  is one exactly when the call is no longer waiting: \<open>media_stopped\<close> only if the copy loop has
  returned and its error was in the channel, \<open>livekit_disconnected_or_agent_left\<close> only if the
  bridge's \<open>done\<close> was closed, \<open>user_hangup\<close> only if the user had hung up, \<open>disconnect_requested\<close>
  only if the call had been stopped by somebody else (a request, the shutdown or the room),
  \<open>max_duration\<close> only if there is a maximum and the call had been up for at least that long;
  there is no other reason. From the end on the call is cancelled, so that it is terminated at
  Meta unless the user hung up.
\<close>

theorem end_reason_truthful:
  assumes "reach (relay_init d) (relay_step d) s"
  shows "(rl_end s = None \<longleftrightarrow> cs_pc (rl_s s) = P_talk) \<and>
    (\<forall>reason c. rl_end s = Some (reason, c) \<longrightarrow>
       ca_cancelled (cs_c (rl_s s)) \<and> (ca_terminate (cs_c (rl_s s)) \<or> ca_userTerminated (cs_c (rl_s s))) \<and>
       ((reason = ''media_stopped'' \<and> rl_pc s = L_stopped \<and> cs_mediaErr c \<noteq> []) \<or>
        (reason = ''livekit_disconnected_or_agent_left'' \<and> 0 < br_done (rl_b s) \<and> cs_bridgeDone c) \<or>
        (reason = ''user_hangup'' \<and> ca_cancelled (cs_c c) \<and> ca_userTerminated (cs_c c) \<and> ca_userTerminated (cs_c (rl_s s))) \<or>
        (reason = ''disconnect_requested'' \<and> ca_cancelled (cs_c c) \<and> ca_terminate (cs_c c) \<and> \<not> ca_userTerminated (cs_c c)) \<or>
        (reason = ''max_duration'' \<and> 0 < d \<and> d \<le> cs_talked c)))"
proof -
  have inv: "call_inv (rl_s s)" "end_inv d s" using relay.reach_inv [OF assms] by (auto simp: relay_inv_def)
  show ?thesis
  proof (cases "rl_end s")
    case (Some x)
    obtain reason c where x: "x = (reason, c)" by (cases x)
    have "cs_pc (rl_s s) \<noteq> P_talk" "prank (cs_pc (rl_s s)) \<le> 8" using inv(2) Some x by (auto simp: end_inv_def)
    then have "prank (cs_pc (rl_s s)) \<le> 7" by (cases "cs_pc (rl_s s)") auto
    with inv(1) have "ca_cancelled (cs_c (rl_s s)) \<and> (ca_terminate (cs_c (rl_s s)) \<or> ca_userTerminated (cs_c (rl_s s)))"
      by (auto simp: call_inv_def flag_inv_def Let_def)
    with inv(2) Some x show ?thesis by (auto simp: end_inv_def justified_def flag_inv_def Let_def)
  qed (use inv(2) in \<open>auto simp: end_inv_def\<close>)
qed

theorem end_reason_truthful_witness:
  "\<exists>s c. reach (relay_init second) (relay_step second) s \<and> rl_end s = Some (endMaxDuration, c) \<and> second \<le> cs_talked c"
proof -
  obtain s c where s: "reach (relay_init second) (relay_step second) s" "rl_end s = Some (endMaxDuration, c)"
    using demo_capped by blast
  from end_reason_truthful [OF s(1)] s(2) have "second \<le> cs_talked c" by (auto simp: end_names)
  with s show ?thesis by blast
qed

text \<open>
  C15: A connected call does not outlive its media, even when the maximum duration is switched
  off: while the copy loop waits for a packet, the time it has waited never goes back; once it
  has waited for the media timeout (if there is one) it can stop, with its error in the
  channel; and once the loop has stopped exactly one error is in the channel, so that
  \<open>awaitEnd\<close> can return \<open>media_stopped\<close>, which cancels the call.
\<close>

theorem relay_never_hangs:
  assumes "reach (relay_init d) (relay_step d) s" "cs_pc (rl_s s) = P_talk"
  shows "(rl_pc s = L_read \<and> 0 < mp_mediaTimeout (pu_m (rl_p s)) \<and> mp_mediaTimeout (pu_m (rl_p s)) \<le> rl_silent s \<longrightarrow>
      (\<exists>t e. relay_step d s t \<and> rl_pc t = L_stopped \<and> cs_pc (rl_s t) = P_talk \<and> cs_mediaErr (rl_s t) = [e])) \<and>
    (\<forall>t. rl_pc s = L_read \<and> relay_step d s t \<and> rl_pc t = L_read \<longrightarrow> rl_silent s \<le> rl_silent t) \<and>
    (rl_pc s = L_stopped \<longrightarrow> (\<exists>e t c. cs_mediaErr (rl_s s) = [e] \<and> relay_step d s t \<and> rl_end t = Some (endMediaStopped, c) \<and>
      ca_cancelled (cs_c (rl_s t)) \<and> (ca_userTerminated (cs_c (rl_s t)) \<or> ca_terminate (cs_c (rl_s t)))))"
proof -
  have inv: "up_inv s" "end_inv d s" using relay.reach_inv [OF assms(1)] by (simp_all add: relay_inv_def)
  have "\<exists>t e. relay_step d s t \<and> rl_pc t = L_stopped \<and> cs_pc (rl_s t) = P_talk \<and> cs_mediaErr (rl_s t) = [e]"
    if r: "rl_pc s = L_read" "0 < mp_mediaTimeout (pu_m (rl_p s))" "mp_mediaTimeout (pu_m (rl_p s)) \<le> rl_silent s"
  proof -
    obtain e where e: "ReadRTP None True W_expired (pu_m (rl_p s)) = Some (Inl e, pu_m (rl_p s))"
      using r(2) by (cases "mp_sawRTP (pu_m (rl_p s))") (auto simp: ReadRTP_def)
    have "read_ready None W_expired s" using r(3) by (simp add: read_ready_def)
    moreover have "cs_mediaErr (rl_s s) = []" using inv(1) r(1) by (simp add: up_inv_def)
    ultimately show ?thesis using relay_step.read_failed [OF r(1) _ e] assms(2) by (fastforce simp: copy_failed_def)
  qed
  moreover have "rl_silent s \<le> rl_silent t" if "rl_pc s = L_read" "relay_step d s t" "rl_pc t = L_read" for t
    using that(2) by (cases rule: relay_step.cases) (use that(1,3) in \<open>auto simp: with_bridge_def copy_failed_def\<close>)
  moreover have "\<exists>e t c. cs_mediaErr (rl_s s) = [e] \<and> relay_step d s t \<and> rl_end t = Some (endMediaStopped, c) \<and>
      ca_cancelled (cs_c (rl_s t)) \<and> (ca_userTerminated (cs_c (rl_s t)) \<or> ca_terminate (cs_c (rl_s t)))"
    if stopped: "rl_pc s = L_stopped"
  proof -
    obtain e where e: "cs_mediaErr (rl_s s) = [e]"
      using inv(2) assms(2) stopped by (cases "cs_mediaErr (rl_s s)") (auto simp: end_inv_def split: option.splits)
    then have "awaitEnd d (cs_bridgeDone (rl_s s)) (cs_mediaErr (rl_s s)) (cs_talked (rl_s s)) E_media (cs_c (rl_s s)) =
        Some (endMediaStopped, stopBusiness (cs_c (rl_s s)))"
      by (simp add: awaitEnd_def)
    note st = relay_step.await [OF assms(2) this]
    have "ca_cancelled (stopBusiness c) \<and> (ca_userTerminated (stopBusiness c) \<or> ca_terminate (stopBusiness c))" for c
      by (simp add: call_op_defs)
    with e st show ?thesis by (intro exI conjI) (assumption, rule st, simp_all)
  qed
  ultimately show ?thesis by blast
qed

theorem relay_never_hangs_witness:
  "(\<exists>t. relay_step 0 demo_silent t \<and> rl_pc t = L_stopped) \<and>
   (\<exists>s t c. reach (relay_init 0) (relay_step 0) s \<and> relay_step 0 s t \<and> rl_end t = Some (endMediaStopped, c))"
proof
  have "cs_pc (rl_s demo_silent) = P_talk" "rl_pc demo_silent = L_read" "0 < mp_mediaTimeout (pu_m (rl_p demo_silent))"
      "mp_mediaTimeout (pu_m (rl_p demo_silent)) \<le> rl_silent demo_silent"
    using demo_queue(2) by (simp_all add: demo_silent_def demo_relay_def)
  with relay_never_hangs [OF demo_silent_reach [of 0]] show "\<exists>t. relay_step 0 demo_silent t \<and> rl_pc t = L_stopped" by blast
  obtain s where "reach (relay_init 0) (relay_step 0) s" "rl_pc s = L_stopped" "cs_pc (rl_s s) = P_talk"
    using demo_timed_out by blast
  with relay_never_hangs [of 0 s]
  show "\<exists>s t c. reach (relay_init 0) (relay_step 0) s \<and> relay_step 0 s t \<and> rl_end t = Some (endMediaStopped, c)" by blast
qed

end
