(* ===== verification/Ports.thy ===== *)
theory Ports
  imports GoStrings
begin

text \<open>
  \<open>internal/media/ports.go\<close>: the allocator that binds a UDP socket for each call, walking
  the configured port range round robin. Whether the operating system lets a port be bound
  is the argument \<open>bind\<close>; a bound socket is represented by its port.
\<close>

record PortAllocator =
  pa_min :: int
  pa_max :: int
  pa_next :: u32

function listen_loop :: "(int \<Rightarrow> bool) \<Rightarrow> int \<Rightarrow> int \<Rightarrow> int \<Rightarrow> int \<Rightarrow> int option" where
  "listen_loop bind mn n start i =
     (if i < n then
        let port = mn + go_rem (start + i) n
        in if bind port then Some port else listen_loop bind mn n start (i + 1)
      else None)"
  by pat_completeness auto
termination
  by (relation "measure (\<lambda>(bind, mn, n, start, i). nat (n - i))") auto

declare listen_loop.simps [simp del]

definition port_Listen :: "(int \<Rightarrow> bool) \<Rightarrow> PortAllocator \<Rightarrow> int result \<times> PortAllocator" where
  "port_Listen bind p =
     (let n = pa_max p - pa_min p + 1
      in if n \<le> 0 then (Inl (ErrText ''invalid port range''), p)
         else
           let start = go_rem (uint (pa_next p)) n;
               p' = p\<lparr>pa_next := pa_next p + 1\<rparr>
           in case listen_loop bind (pa_min p) n start 0 of
                Some c \<Rightarrow> (Inr c, p')
              | None \<Rightarrow> (Inl (ErrText (''no free UDP media port in '' @ itoa (pa_min p) @ ''-'' @ itoa (pa_max p))), p'))"

section \<open>The interface of a port source\<close>

text \<open>What the call manager relies on: a port source stays usable, and hands out a bound
  port that fits an SDP description.\<close>

locale port_source =
  fixes listen :: "(int \<Rightarrow> bool) \<Rightarrow> 'p \<Rightarrow> int result \<times> 'p"
    and usable :: "'p \<Rightarrow> bool"
  assumes usable_listen: "usable p \<Longrightarrow> usable (snd (listen bind p))"
    and listen_port: "usable p \<Longrightarrow> fst (listen bind p) = Inr port \<Longrightarrow> bind port \<and> 1 \<le> port \<and> port \<le> 65535"
begin

lemma usable_after: "usable p \<Longrightarrow> usable (fold (\<lambda>b q. snd (listen b q)) bs p)"
  by (induction bs arbitrary: p) (auto intro: usable_listen)

lemma port_after:
  "usable p \<Longrightarrow> fst (listen bind (fold (\<lambda>b q. snd (listen b q)) bs p)) = Inr port \<Longrightarrow>
   bind port \<and> 1 \<le> port \<and> port \<le> 65535"
  by (rule listen_port [OF usable_after])

end

section \<open>The loop\<close>

text \<open>The \<open>i\<close>-th candidate after \<open>start\<close>, cyclically.\<close>

definition candidate :: "int \<Rightarrow> int \<Rightarrow> int \<Rightarrow> int \<Rightarrow> int" where
  "candidate mn n start i = mn + (start + i) mod n"

lemma listen_loop_Some:
  "0 \<le> start \<Longrightarrow> 0 \<le> i \<Longrightarrow> 0 < n \<Longrightarrow> listen_loop bind mn n start i = Some port \<Longrightarrow>
   \<exists>k. i \<le> k \<and> k < n \<and> port = candidate mn n start k \<and> bind port \<and>
     (\<forall>j. i \<le> j \<and> j < k \<longrightarrow> \<not> bind (candidate mn n start j))"
proof (induction bind mn n start i rule: listen_loop.induct)
  case (1 bind mn n start i)
  show ?case
  proof (cases "i < n")
    case True
    show ?thesis
    proof (cases "bind (candidate mn n start i)")
      case bound: True
      with True "1.prems" show ?thesis
        by (intro exI [of _ i]) (auto simp: listen_loop.simps [of bind mn n start i] candidate_def Let_def)
    next
      case False
      then have nb: "\<not> bind (mn + go_rem (start + i) n)" using "1.prems" by (simp add: candidate_def)
      with True "1.prems" have "listen_loop bind mn n start (i + 1) = Some port"
        by (simp add: listen_loop.simps [of bind mn n start i] Let_def)
      with "1.IH" [OF True refl nb] "1.prems" obtain k where k: "i + 1 \<le> k" "k < n"
          "port = candidate mn n start k" "bind port"
          "\<forall>j. i + 1 \<le> j \<and> j < k \<longrightarrow> \<not> bind (candidate mn n start j)"
        by auto
      have "\<not> bind (candidate mn n start j)" if "i \<le> j" "j < k" for j
        using that k(5) False by (cases "j = i") auto
      with k show ?thesis by (intro exI [of _ k]) auto
    qed
  next
    case False
    with "1.prems" show ?thesis by (simp add: listen_loop.simps [of bind mn n start i])
  qed
qed

lemma listen_loop_None:
  "0 \<le> start \<Longrightarrow> 0 \<le> i \<Longrightarrow> 0 < n \<Longrightarrow> listen_loop bind mn n start i = None \<Longrightarrow>
   i \<le> k \<Longrightarrow> k < n \<Longrightarrow> \<not> bind (candidate mn n start k)"
proof (induction bind mn n start i rule: listen_loop.induct)
  case (1 bind mn n start i)
  then have nb: "\<not> bind (mn + go_rem (start + i) n)" "listen_loop bind mn n start (i + 1) = None"
    by (auto simp: listen_loop.simps [of bind mn n start i] Let_def split: if_splits)
  with "1.IH" [OF _ refl nb(1)] "1.prems" show ?case
    by (cases "k = i") (auto simp: candidate_def)
qed

text \<open>Walking \<open>n\<close> steps round the range visits every port of it.\<close>

lemma candidate_onto:
  assumes "mn \<le> port" "port < mn + n"
  shows "\<exists>k. 0 \<le> k \<and> k < n \<and> candidate mn n start k = port"
proof -
  let ?k = "(port - mn - start) mod n"
  have n: "0 < n" using assms by simp
  have "(start + ?k) mod n = (start + (port - mn - start)) mod n" by (simp add: mod_add_right_eq)
  also have "\<dots> = port - mn" using assms by simp
  finally show ?thesis using n by (intro exI [of _ ?k]) (simp add: candidate_def)
qed

lemma candidate_range: "0 < n \<Longrightarrow> mn \<le> candidate mn n start k \<and> candidate mn n start k < mn + n"
  by (simp add: candidate_def)

section \<open>Properties\<close>

text \<open>
  C39: on a non-empty range, \<open>Listen\<close> succeeds exactly when some port of the range can be
  bound; it then returns the first one that can, in cyclic order from the round-robin
  counter, having tried every port before it, and always advances the counter.
\<close>

theorem port_Listen_first_free:
  assumes "pa_min p \<le> pa_max p"
  shows "pa_next (snd (port_Listen bind p)) = pa_next p + 1 \<and>
     ((\<exists>port. pa_min p \<le> port \<and> port \<le> pa_max p \<and> bind port) \<longleftrightarrow>
        (\<exists>port. fst (port_Listen bind p) = Inr port)) \<and>
     (\<forall>port. fst (port_Listen bind p) = Inr port \<longrightarrow>
        pa_min p \<le> port \<and> port \<le> pa_max p \<and> bind port \<and>
        (\<exists>k \<ge> 0. port = candidate (pa_min p) (pa_max p - pa_min p + 1) (uint (pa_next p)) k \<and>
           (\<forall>j. 0 \<le> j \<and> j < k \<longrightarrow>
              \<not> bind (candidate (pa_min p) (pa_max p - pa_min p + 1) (uint (pa_next p)) j))))"
proof -
  let ?n = "pa_max p - pa_min p + 1" and ?mn = "pa_min p"
  let ?st = "uint (pa_next p) mod ?n"
  have n: "0 < ?n" using assms by simp
  have st: "0 \<le> ?st" using n by simp
  have cand: "candidate ?mn ?n ?st k = candidate ?mn ?n (uint (pa_next p)) k" for k
    by (simp add: candidate_def mod_add_left_eq)
  have L: "port_Listen bind p =
     (case listen_loop bind ?mn ?n ?st 0 of
        Some c \<Rightarrow> (Inr c, p\<lparr>pa_next := pa_next p + 1\<rparr>)
      | None \<Rightarrow> (Inl (ErrText (''no free UDP media port in '' @ itoa (pa_min p) @ ''-'' @ itoa (pa_max p))),
           p\<lparr>pa_next := pa_next p + 1\<rparr>))"
    using n by (simp add: port_Listen_def Let_def)
  show ?thesis
  proof (cases "listen_loop bind ?mn ?n ?st 0")
    case None
    have "\<not> bind port" if port: "?mn \<le> port" "port \<le> pa_max p" for port
    proof -
      from port obtain k where "0 \<le> k" "k < ?n" "candidate ?mn ?n ?st k = port"
        using candidate_onto [of ?mn port ?n ?st] by auto
      with listen_loop_None [OF st _ n None, of k] show ?thesis by simp
    qed
    with None L show ?thesis by auto
  next
    case (Some port)
    from listen_loop_Some [OF st _ n Some] obtain k where k: "0 \<le> k" "k < ?n"
        "port = candidate ?mn ?n ?st k" "bind port"
        "\<forall>j. 0 \<le> j \<and> j < k \<longrightarrow> \<not> bind (candidate ?mn ?n ?st j)"
      by auto
    moreover have "?mn \<le> port \<and> port \<le> pa_max p"
      using candidate_range [OF n, of ?mn ?st k] k(3) by simp
    ultimately show ?thesis using Some L unfolding cand by auto
  qed
qed

theorem port_Listen_first_free_witness:
  "\<exists>port. fst (port_Listen (\<lambda>port. port \<noteq> 40001) \<lparr>pa_min = 40000, pa_max = 40003, pa_next = 5\<rparr>) = Inr port
      \<and> 40000 \<le> port \<and> port \<le> 40003 \<and> port \<noteq> 40001"
proof -
  let ?p = "\<lparr>pa_min = 40000, pa_max = 40003, pa_next = 5\<rparr>"
  let ?bind = "\<lambda>port :: int. port \<noteq> 40001"
  have "pa_min ?p \<le> pa_max ?p" by simp
  note T = port_Listen_first_free [OF this, of ?bind]
  have "\<exists>port. pa_min ?p \<le> port \<and> port \<le> pa_max ?p \<and> ?bind port"
    by (intro exI [of _ 40000]) simp
  then obtain port where port: "fst (port_Listen ?bind ?p) = Inr port"
    using T [THEN conjunct2, THEN conjunct1] by blast
  with T [THEN conjunct2, THEN conjunct2] show ?thesis by fastforce
qed

definition port_range_ok :: "PortAllocator \<Rightarrow> bool" where
  "port_range_ok p \<longleftrightarrow> 1024 \<le> pa_min p \<and> pa_min p \<le> pa_max p \<and> pa_max p \<le> 65535"

lemma port_Listen_range:
  assumes "pa_min p \<le> pa_max p" "fst (port_Listen bind p) = Inr port"
  shows "pa_min p \<le> port \<and> port \<le> pa_max p \<and> bind port"
proof -
  let ?n = "pa_max p - pa_min p + 1" and ?mn = "pa_min p"
  have n: "0 < ?n" using assms by simp
  with assms obtain c where c: "listen_loop bind ?mn ?n (uint (pa_next p) mod ?n) 0 = Some c" "c = port"
    by (auto simp: port_Listen_def Let_def split: option.splits)
  have "0 \<le> uint (pa_next p) mod ?n" using n by simp
  from listen_loop_Some [OF this _ n c(1)] candidate_range [OF n, of ?mn] c(2) show ?thesis
    by fastforce
qed

interpretation ports: port_source port_Listen port_range_ok
proof
  show "port_range_ok p \<Longrightarrow> port_range_ok (snd (port_Listen bind p))" for p bind
    by (auto simp: port_range_ok_def port_Listen_def Let_def split: option.splits)
  show "port_range_ok p \<Longrightarrow> fst (port_Listen bind p) = Inr port \<Longrightarrow> bind port \<and> 1 \<le> port \<and> port \<le> 65535"
    for p bind port
    using port_Listen_range [of p bind port] by (auto simp: port_range_ok_def)
qed

end
