(* ===== verification/MetaClient.thy ===== *)
theory MetaClient
  imports GoStrings
begin

text \<open>
  \<open>internal/meta/client.go\<close>: the client of Meta's calls API with its retry policy. What the
  network does is an argument (\<open>net\<close>): whether the request can be built for a URL, the
  outcome of the \<open>n\<close>-th exchange, and whether the \<open>n\<close>-th back-off timer fires before the
  context ends. Every operation returns its result together with the exchanges it made, so
  that properties can speak about repeated requests.
\<close>

section \<open>Types\<close>

datatype retryPolicy = retryNever | retryUnprocessed | retryAny

record client =
  cl_BaseURL :: string
  cl_Backoff :: "(nat \<Rightarrow> duration) option"

definition New :: client where
  "New = \<lparr>cl_BaseURL = ''https://graph.facebook.com'', cl_Backoff = None\<rparr>"

definition maxAttempts :: nat where "maxAttempts = 3"

record session =
  se_SDPType :: string
  se_SDP :: string

record callRequest =
  cr_MessagingProduct :: string
  cr_CallID :: string
  cr_To :: string
  cr_Action :: string
  cr_Session :: "session option"
  cr_Opaque :: string

record http_request =
  hr_method :: string
  hr_url :: string
  hr_headers :: "(string \<times> string) list"
  hr_body :: callRequest

text \<open>A response: its status, the ids of the decoded \<open>calls\<close> array (\<open>None\<close> when the body is
  not that JSON document) and its text.\<close>

record http_response =
  rs_StatusCode :: int
  rs_calls :: "string list option"
  rs_text :: string

datatype http_outcome = DoError go_error | Response http_response

record network =
  nw_request_error :: "string \<Rightarrow> go_error option"
  nw_exchange :: "nat \<Rightarrow> http_request \<Rightarrow> http_outcome"
  nw_backoff_elapses :: "nat \<Rightarrow> duration \<Rightarrow> bool"

section \<open>Retry policy\<close>

definition retryable :: "retryPolicy \<Rightarrow> go_error option \<Rightarrow> bool" where
  "retryable policy err =
     (case err of None \<Rightarrow> False
      | Some e \<Rightarrow>
         (if policy = retryNever then False
          else case as_http_status e of
            Some code \<Rightarrow> (if code = 429 \<or> code = 503 then True else policy = retryAny \<and> 500 \<le> code)
          | None \<Rightarrow>
              (if err_is e ErrCanceled then False
               else if as_net_op e = Some ''dial'' then True
               else policy = retryAny)))"

definition backoff :: "client \<Rightarrow> nat \<Rightarrow> duration" where
  "backoff c n = (case cl_Backoff c of Some f \<Rightarrow> f n | None \<Rightarrow> int n * (400 * millisecond))"

section \<open>One request\<close>

definition sanitize :: "string \<Rightarrow> string" where
  "sanitize s =
     (let t = (if 512 < length s then take 512 s else s)
      in replace_all (CHR 0x0D) '' '' (replace_all (CHR 0x0A) '' '' t))"

text \<open>Decoding of the response: the call id for a new outbound call, nothing otherwise.\<close>

definition read_response :: "callRequest \<Rightarrow> http_response \<Rightarrow> string result" where
  "read_response body resp =
     (if 200 \<le> rs_StatusCode resp \<and> rs_StatusCode resp < 300 then
        (if cr_Action body = ''connect'' \<and> cr_CallID body = [] then
           (case rs_calls resp of
              Some (cid # _) \<Rightarrow>
                if cid = [] then Inl (ErrText ''Meta calls API returned no call id'') else Inr cid
            | _ \<Rightarrow> Inl (ErrText ''Meta calls API returned no call id''))
         else Inr [])
      else Inl (HTTPStatusError (rs_StatusCode resp) (sanitize (take 4096 (rs_text resp)))))"

text \<open>The result and the request sent, if any was.\<close>

definition callOnce :: "network \<Rightarrow> nat \<Rightarrow> client \<Rightarrow> string \<Rightarrow> string \<Rightarrow> string \<Rightarrow> callRequest \<Rightarrow>
    string result \<times> http_request option" where
  "callOnce net n c version0 phoneID token body =
     (let version = trim_prefix (trim_space version0) ''v''
      in if version = [] then (Inl (ErrText ''WhatsApp API version is required''), None)
         else
           let u = trim_right (cl_BaseURL c) CHR ''/'' @ ''/v'' @ version @ ''/'' @ phoneID @ ''/calls''
           in case nw_request_error net u of
                Some e \<Rightarrow> (Inl e, None)
              | None \<Rightarrow>
                  let req = \<lparr>hr_method = ''POST'', hr_url = u,
                        hr_headers = [(''Authorization'', ''Bearer '' @ token), (''Content-Type'', ''application/json'')],
                        hr_body = body\<rparr>
                  in case nw_exchange net n req of
                       DoError e \<Rightarrow> (Inl e, Some req)
                     | Response resp \<Rightarrow> (read_response body resp, Some req))"

section \<open>The retry loop\<close>

text \<open>An attempt: the request sent and its result.\<close>

type_synonym attempt = "string result \<times> http_request option"

function call_from :: "nat \<Rightarrow> network \<Rightarrow> client \<Rightarrow> retryPolicy \<Rightarrow> string \<Rightarrow> string \<Rightarrow> string \<Rightarrow> callRequest \<Rightarrow>
    string result \<times> attempt list" where
  "call_from attempt net c policy version phoneID token body =
     (let a = callOnce net attempt c version phoneID token body
      in case fst a of
           Inr out \<Rightarrow> (Inr out, [a])
         | Inl e \<Rightarrow>
             if maxAttempts \<le> attempt \<or> \<not> retryable policy (Some e) then (Inl e, [a])
             else if nw_backoff_elapses net attempt (backoff c attempt) then
               (case call_from (attempt + 1) net c policy version phoneID token body of
                  (r, as) \<Rightarrow> (r, a # as))
             else (Inl e, [a]))"
  by pat_completeness auto
termination
  by (relation "measure (\<lambda>(n, _). maxAttempts - n)") auto

declare call_from.simps [simp del]

definition meta_call :: "network \<Rightarrow> client \<Rightarrow> retryPolicy \<Rightarrow> string \<Rightarrow> string \<Rightarrow> string \<Rightarrow> callRequest \<Rightarrow>
    string result \<times> attempt list" where
  "meta_call = call_from 1"

section \<open>The actions\<close>

definition meta_PreAccept :: "network \<Rightarrow> client \<Rightarrow> string \<Rightarrow> string \<Rightarrow> string \<Rightarrow> string \<Rightarrow> string \<Rightarrow>
    string result \<times> attempt list" where
  "meta_PreAccept net c version phoneID token callID sdp =
     meta_call net c retryUnprocessed version phoneID token
       \<lparr>cr_MessagingProduct = ''whatsapp'', cr_CallID = callID, cr_To = [], cr_Action = ''pre_accept'',
        cr_Session = Some \<lparr>se_SDPType = ''answer'', se_SDP = sdp\<rparr>, cr_Opaque = []\<rparr>"

definition meta_Accept :: "network \<Rightarrow> client \<Rightarrow> string \<Rightarrow> string \<Rightarrow> string \<Rightarrow> string \<Rightarrow> string \<Rightarrow>
    string result \<times> attempt list" where
  "meta_Accept net c version phoneID token callID sdp =
     meta_call net c retryUnprocessed version phoneID token
       \<lparr>cr_MessagingProduct = ''whatsapp'', cr_CallID = callID, cr_To = [], cr_Action = ''accept'',
        cr_Session = Some \<lparr>se_SDPType = ''answer'', se_SDP = sdp\<rparr>, cr_Opaque = []\<rparr>"

definition meta_Terminate :: "network \<Rightarrow> client \<Rightarrow> string \<Rightarrow> string \<Rightarrow> string \<Rightarrow> string \<Rightarrow>
    string result \<times> attempt list" where
  "meta_Terminate net c version phoneID token callID =
     meta_call net c retryAny version phoneID token
       \<lparr>cr_MessagingProduct = ''whatsapp'', cr_CallID = callID, cr_To = [], cr_Action = ''terminate'',
        cr_Session = None, cr_Opaque = []\<rparr>"

definition meta_Dial :: "network \<Rightarrow> client \<Rightarrow> string \<Rightarrow> string \<Rightarrow> string \<Rightarrow> string \<Rightarrow> string \<Rightarrow> string \<Rightarrow>
    string result \<times> attempt list" where
  "meta_Dial net c version phoneID token to0 opaque sdp =
     (let to = trim_prefix (trim_space to0) ''+''
      in if to = [] then (Inl (ErrText ''WhatsApp destination is required''), [])
         else meta_call net c retryNever version phoneID token
           \<lparr>cr_MessagingProduct = ''whatsapp'', cr_CallID = [], cr_To = to, cr_Action = ''connect'',
            cr_Session = Some \<lparr>se_SDPType = ''offer'', se_SDP = sdp\<rparr>, cr_Opaque = opaque\<rparr>)"

section \<open>The interface of a retrying client\<close>

text \<open>What the call manager relies on: an action makes between one and \<open>limit\<close> attempts,
  answers with the last one, and repeats an attempt only when it failed in a way that the
  policy of the action allows.\<close>

locale retrying =
  fixes act :: "'req \<Rightarrow> string result \<times> attempt list"
    and limit :: nat
    and may_repeat :: "go_error \<Rightarrow> bool"
  assumes act_attempts: "1 \<le> length (snd (act r)) \<and> length (snd (act r)) \<le> limit"
    and act_last: "fst (act r) = fst (last (snd (act r)))"
    and act_repeat: "a \<in> set (butlast (snd (act r))) \<Longrightarrow> \<exists>e. fst a = Inl e \<and> may_repeat e"
begin

lemma act_success_last: "a \<in> set (snd (act r)) \<Longrightarrow> fst a = Inr out \<Longrightarrow> fst (act r) = Inr out"
proof -
  assume a: "a \<in> set (snd (act r))" "fst a = Inr out"
  have ne: "snd (act r) \<noteq> []" using act_attempts [of r] by auto
  have "snd (act r) = butlast (snd (act r)) @ [last (snd (act r))]" using ne by simp
  then have "a \<in> set (butlast (snd (act r))) \<or> a = last (snd (act r))"
    using a(1) by (metis Un_iff empty_iff insert_iff list.set set_append)
  then show ?thesis using a(2) act_repeat act_last by fastforce
qed

lemma act_single: "limit = 1 \<Longrightarrow> length (snd (act r)) = 1"
  using act_attempts [of r] by simp

end

section \<open>The loop implements the interface\<close>

lemma call_from_attempts:
  "n \<le> maxAttempts \<Longrightarrow>
   1 \<le> length (snd (call_from n net c policy v ph tok body)) \<and>
   length (snd (call_from n net c policy v ph tok body)) \<le> maxAttempts + 1 - n"
proof (induction n net c policy v ph tok body rule: call_from.induct)
  case (1 n net c policy v ph tok body)
  show ?case
  proof (cases "\<exists>e. fst (callOnce net n c v ph tok body) = Inl e \<and> n < maxAttempts \<and>
      retryable policy (Some e) \<and> nw_backoff_elapses net n (backoff c n)")
    case True
    then obtain e where e: "fst (callOnce net n c v ph tok body) = Inl e" "\<not> maxAttempts \<le> n"
      "retryable policy (Some e)" "nw_backoff_elapses net n (backoff c n)" by auto
    with "1.IH" [OF refl e(1) _ e(4)] show ?thesis
      by (auto simp: call_from.simps [of n] Let_def split: prod.splits)
  next
    case False
    with "1.prems" show ?thesis
      by (auto simp: call_from.simps [of n] Let_def split: sum.splits)
  qed
qed

lemma call_from_last:
  "fst (call_from n net c policy v ph tok body) = fst (last (snd (call_from n net c policy v ph tok body)))
   \<and> snd (call_from n net c policy v ph tok body) \<noteq> []"
proof (induction n net c policy v ph tok body rule: call_from.induct)
  case (1 n net c policy v ph tok body)
  show ?case
  proof (cases "\<exists>e. fst (callOnce net n c v ph tok body) = Inl e \<and> n < maxAttempts \<and>
      retryable policy (Some e) \<and> nw_backoff_elapses net n (backoff c n)")
    case True
    then obtain e where e: "fst (callOnce net n c v ph tok body) = Inl e" "\<not> maxAttempts \<le> n"
      "retryable policy (Some e)" "nw_backoff_elapses net n (backoff c n)" by auto
    with "1.IH" [OF refl e(1) _ e(4)] show ?thesis
      by (auto simp: call_from.simps [of n] Let_def split: prod.splits)
  next
    case False
    then show ?thesis
      by (auto simp: call_from.simps [of n] Let_def split: sum.splits)
  qed
qed

lemma call_from_repeat:
  "a \<in> set (butlast (snd (call_from n net c policy v ph tok body))) \<Longrightarrow>
   \<exists>e. fst a = Inl e \<and> retryable policy (Some e)"
proof (induction n net c policy v ph tok body rule: call_from.induct)
  case (1 n net c policy v ph tok body)
  show ?case
  proof (cases "\<exists>e. fst (callOnce net n c v ph tok body) = Inl e \<and> n < maxAttempts \<and>
      retryable policy (Some e) \<and> nw_backoff_elapses net n (backoff c n)")
    case True
    then obtain e where e: "fst (callOnce net n c v ph tok body) = Inl e" "\<not> maxAttempts \<le> n"
      "retryable policy (Some e)" "nw_backoff_elapses net n (backoff c n)" by auto
    with "1.IH" [OF refl e(1) _ e(4)] "1.prems" show ?thesis
      by (auto simp: call_from.simps [of n] Let_def split: prod.splits if_splits)
  next
    case False
    with "1.prems" show ?thesis
      by (auto simp: call_from.simps [of n] Let_def split: sum.splits if_splits)
  qed
qed

text \<open>Every attempt sends the same request, under the given token.\<close>

lemma callOnce_sent:
  "snd (callOnce net n c v ph tok body) = Some req \<Longrightarrow> hr_method req = ''POST'' \<and> hr_body req = body \<and>
   hr_headers req = [(''Authorization'', ''Bearer '' @ tok), (''Content-Type'', ''application/json'')]"
  by (auto simp: callOnce_def Let_def split: if_splits option.splits http_outcome.splits)

lemma call_from_once: "a \<in> set (snd (call_from n net c policy v ph tok body)) \<Longrightarrow> \<exists>k. a = callOnce net k c v ph tok body"
proof (induction n net c policy v ph tok body rule: call_from.induct)
  case (1 n net c policy v ph tok body)
  show ?case
  proof (cases "\<exists>e. fst (callOnce net n c v ph tok body) = Inl e \<and> n < maxAttempts \<and>
      retryable policy (Some e) \<and> nw_backoff_elapses net n (backoff c n)")
    case True
    then obtain e where e: "fst (callOnce net n c v ph tok body) = Inl e" "\<not> maxAttempts \<le> n"
      "retryable policy (Some e)" "nw_backoff_elapses net n (backoff c n)" by auto
    with "1.IH" [OF refl e(1) _ e(4)] "1.prems" show ?thesis
      by (auto simp: call_from.simps [of n] Let_def split: prod.splits)
  next
    case False
    with "1.prems" show ?thesis
      by (auto simp: call_from.simps [of n] Let_def split: sum.splits if_splits)
  qed
qed

lemma meta_call_sent:
  "a \<in> set (snd (meta_call net c policy v ph tok body)) \<Longrightarrow> snd a = Some req \<Longrightarrow> hr_method req = ''POST'' \<and> hr_body req = body \<and>
   hr_headers req = [(''Authorization'', ''Bearer '' @ tok), (''Content-Type'', ''application/json'')]"
  using call_from_once [of a 1 net c policy v ph tok body] callOnce_sent by (auto simp: meta_call_def)

text \<open>The failures after which Meta has certainly not processed the request.\<close>

definition unprocessed :: "go_error \<Rightarrow> bool" where
  "unprocessed e \<longleftrightarrow> as_http_status e \<in> {Some 429, Some 503} \<or>
     (as_http_status e = None \<and> as_net_op e = Some ''dial'' \<and> \<not> err_is e ErrCanceled)"

lemma retryable_cases:
  "retryable retryNever (Some e) \<longleftrightarrow> False"
  "retryable retryUnprocessed (Some e) \<longleftrightarrow> unprocessed e"
  by (auto simp: retryable_def unprocessed_def split: option.splits)

lemma meta_call_contract:
  "1 \<le> length (snd (meta_call net c policy v ph tok body)) \<and>
     length (snd (meta_call net c policy v ph tok body)) \<le> maxAttempts"
  "fst (meta_call net c policy v ph tok body) = fst (last (snd (meta_call net c policy v ph tok body)))"
  "a \<in> set (butlast (snd (meta_call net c policy v ph tok body))) \<Longrightarrow>
     \<exists>e. fst a = Inl e \<and> retryable policy (Some e)"
  using call_from_attempts [of 1 net c policy v ph tok body]
    call_from_last [of 1 net c policy v ph tok body]
    call_from_repeat [of a 1 net c policy v ph tok body]
  by (simp_all add: meta_call_def maxAttempts_def)

lemma meta_call_never_once: "length (snd (meta_call net c retryNever v ph tok body)) = 1"
  by (auto simp: meta_call_def call_from.simps [of "Suc 0"] Let_def retryable_def split: sum.splits)

interpretation pre_accept: retrying
    "\<lambda>(net, c, v, ph, tok, callID, sdp). meta_PreAccept net c v ph tok callID sdp" maxAttempts unprocessed
  by unfold_locales
     (auto simp: meta_PreAccept_def retryable_cases dest: meta_call_contract(3)
       intro: meta_call_contract(2) meta_call_contract(1) [THEN conjunct1, simplified]
         meta_call_contract(1) [THEN conjunct2])

interpretation accept: retrying
    "\<lambda>(net, c, v, ph, tok, callID, sdp). meta_Accept net c v ph tok callID sdp" maxAttempts unprocessed
  by unfold_locales
     (auto simp: meta_Accept_def retryable_cases dest: meta_call_contract(3)
       intro: meta_call_contract(2) meta_call_contract(1) [THEN conjunct1, simplified]
         meta_call_contract(1) [THEN conjunct2])

interpretation terminate: retrying
    "\<lambda>(net, c, v, ph, tok, callID). meta_Terminate net c v ph tok callID" maxAttempts
    "\<lambda>e. retryable retryAny (Some e)"
  by unfold_locales
     (auto simp: meta_Terminate_def dest: meta_call_contract(3)
       intro: meta_call_contract(2) meta_call_contract(1) [THEN conjunct1, simplified]
         meta_call_contract(1) [THEN conjunct2])

interpretation place_call: retrying
    "\<lambda>(net, c, v, ph, tok, body). meta_call net c retryNever v ph tok body" 1 "\<lambda>e. False"
  by unfold_locales
     (auto simp: meta_call_never_once retryable_cases dest: meta_call_contract(3)
       intro: meta_call_contract(2))

section \<open>Properties\<close>

text \<open>
  C28: placing an outbound call sends at most one request whatever the network does, so a
  customer is never rung twice by a retry, and a success carries a non-empty call id.
\<close>

theorem dial_at_most_once:
  "length (snd (meta_Dial net c version phoneID token to opaque sdp)) \<le> 1
   \<and> fst (meta_Dial net c version phoneID token to opaque sdp) \<noteq> Inr []"
proof (cases "trim_prefix (trim_space to) ''+'' = []")
  case False
  let ?body = "\<lparr>cr_MessagingProduct = ''whatsapp'', cr_CallID = [], cr_To = trim_prefix (trim_space to) ''+'',
      cr_Action = ''connect'', cr_Session = Some \<lparr>se_SDPType = ''offer'', se_SDP = sdp\<rparr>, cr_Opaque = opaque\<rparr>"
  have eq: "meta_Dial net c version phoneID token to opaque sdp =
      meta_call net c retryNever version phoneID token ?body"
    using False by (simp add: meta_Dial_def Let_def)
  have "fst (callOnce net (Suc 0) c version phoneID token ?body) \<noteq> Inr []"
    by (auto simp: callOnce_def read_response_def Let_def
        split: option.splits http_outcome.splits list.splits)
  then have "fst (meta_call net c retryNever version phoneID token ?body) \<noteq> Inr []"
    by (auto simp: meta_call_def call_from.simps [of "Suc 0"] Let_def retryable_def split: sum.splits)
  then show ?thesis by (simp add: eq meta_call_never_once)
qed (simp add: meta_Dial_def Let_def)

lemma callOnce_request:
  "snd (callOnce net n c v ph tok body) = Some req \<Longrightarrow> snd (callOnce net m c v ph tok body) = Some req"
  by (auto simp: callOnce_def Let_def split: if_splits option.splits http_outcome.splits)

text \<open>
  C29: \<open>pre_accept\<close> and \<open>accept\<close> make one to three attempts; every attempt before the last
  one failed in a way that proves Meta did not process it (HTTP 429 or 503, or the
  connection could not be opened), so a request that may have taken effect is never
  repeated, and the answer is that of the last attempt.
\<close>

theorem accept_repeats_only_unprocessed:
  assumes "(r, as) \<in> {meta_PreAccept net c version phoneID token callID sdp,
                        meta_Accept net c version phoneID token callID sdp}"
  shows "1 \<le> length as \<and> length as \<le> 3 \<and> r = fst (last as)
    \<and> (\<forall>a \<in> set (butlast as). \<exists>e. fst a = Inl e \<and> unprocessed e)"
  using assms
    pre_accept.act_attempts [of "(net, c, version, phoneID, token, callID, sdp)"]
    pre_accept.act_last [of "(net, c, version, phoneID, token, callID, sdp)"]
    pre_accept.act_repeat [of _ "(net, c, version, phoneID, token, callID, sdp)"]
    accept.act_attempts [of "(net, c, version, phoneID, token, callID, sdp)"]
    accept.act_last [of "(net, c, version, phoneID, token, callID, sdp)"]
    accept.act_repeat [of _ "(net, c, version, phoneID, token, callID, sdp)"]
  by (auto simp: maxAttempts_def dest: sym)

text \<open>A network that answers with the given status codes in order, then 200.\<close>

definition answering :: "int list \<Rightarrow> network" where
  "answering codes = \<lparr>nw_request_error = (\<lambda>u. None),
     nw_exchange = (\<lambda>n req. Response \<lparr>rs_StatusCode = (if n - 1 < length codes then codes ! (n - 1) else 200),
        rs_calls = Some [''wacid.1''], rs_text = ''x''\<rparr>),
     nw_backoff_elapses = (\<lambda>n d. True)\<rparr>"

lemma answering_once:
  "fst (callOnce (answering codes) n New ''v23.0'' ''1'' ''tok'' body) =
     read_response body \<lparr>rs_StatusCode = (if n - 1 < length codes then codes ! (n - 1) else 200),
        rs_calls = Some [''wacid.1''], rs_text = ''x''\<rparr>"
proof -
  have "trim_prefix (trim_space ''v23.0'') ''v'' = ''23.0''"
    by (simp add: trim_space_ascii is_space_def trim_prefix_def has_prefix_def)
  then show ?thesis by (simp add: callOnce_def answering_def Let_def)
qed

lemma answering_backoff [simp]: "nw_backoff_elapses (answering codes) n d"
  by (simp add: answering_def)

lemma sanitize_x [simp]: "sanitize ''x'' = ''x''"
  by (simp add: sanitize_def replace_all_def)

theorem accept_repeats_only_unprocessed_witness:
  "length (snd (meta_Accept (answering [503, 429]) New ''v23.0'' ''1'' ''tok'' ''call'' ''sdp'')) = 3
   \<and> list_all (\<lambda>a. \<exists>e. fst a = Inl e \<and> unprocessed e)
        (butlast (snd (meta_Accept (answering [503, 429]) New ''v23.0'' ''1'' ''tok'' ''call'' ''sdp'')))"
proof -
  have "length (snd (meta_Accept (answering [503, 429]) New ''v23.0'' ''1'' ''tok'' ''call'' ''sdp'')) = 3"
    by (simp add: meta_Accept_def meta_call_def call_from.simps [of "Suc 0"] call_from.simps [of "Suc (Suc 0)"]
        call_from.simps [of "Suc (Suc (Suc 0))"] answering_once read_response_def retryable_def maxAttempts_def Let_def)
  with accept_repeats_only_unprocessed [of _ _ "answering [503, 429]" New "''v23.0''" "''1''" "''tok''" "''call''" "''sdp''"]
  show ?thesis unfolding list_all_iff by (metis insertCI prod.collapse)
qed

text \<open>Attempts \<open>n\<close> to \<open>k - 1\<close> fail in a retryable way and their back-off elapses.\<close>

lemma call_from_reaches:
  assumes "n \<le> k" "k \<le> maxAttempts" "fst (callOnce net k c v ph tok body) = Inr out"
    and "\<And>i. n \<le> i \<Longrightarrow> i < k \<Longrightarrow> \<exists>e. fst (callOnce net i c v ph tok body) = Inl e \<and> retryable policy (Some e)
           \<and> nw_backoff_elapses net i (backoff c i)"
  shows "fst (call_from n net c policy v ph tok body) = Inr out"
  using assms(1,4)
proof (induction "k - n" arbitrary: n)
  case 0
  then have "n = k" by simp
  with assms(3) show ?case by (simp add: call_from.simps [of k] Let_def)
next
  case (Suc d)
  then have "n < k" "d = k - Suc n" by auto
  with Suc.prems obtain e where e: "fst (callOnce net n c v ph tok body) = Inl e" "retryable policy (Some e)"
      "nw_backoff_elapses net n (backoff c n)" by blast
  have "fst (call_from (Suc n) net c policy v ph tok body) = Inr out"
    using Suc.hyps(1) [of "Suc n"] Suc.prems \<open>n < k\<close> \<open>d = k - Suc n\<close> by auto
  with e \<open>n < k\<close> assms(2) show ?case
    by (auto simp: call_from.simps [of n] Let_def split: prod.splits)
qed

definition terminate_body :: "string \<Rightarrow> callRequest" where
  "terminate_body callID = \<lparr>cr_MessagingProduct = ''whatsapp'', cr_CallID = callID, cr_To = [],
     cr_Action = ''terminate'', cr_Session = None, cr_Opaque = []\<rparr>"

text \<open>
  C30: a call is terminated if Meta can be reached at all within three attempts: when one
  of the first three exchanges succeeds and those before it ended in a server error (any
  status from 500 up), in HTTP 429 or in a network failure other than a cancelled context,
  \<open>Terminate\<close> succeeds, provided the back-off timers elapse before the context ends.
\<close>

theorem terminate_gets_through:
  assumes "1 \<le> k" "k \<le> 3"
    and "fst (callOnce net k c version phoneID token (terminate_body callID)) = Inr out"
    and "\<And>i. 1 \<le> i \<Longrightarrow> i < k \<Longrightarrow> nw_backoff_elapses net i (backoff c i) \<and>
       (\<exists>e. fst (callOnce net i c version phoneID token (terminate_body callID)) = Inl e \<and>
          (case as_http_status e of Some code \<Rightarrow> code = 429 \<or> 500 \<le> code
             | None \<Rightarrow> \<not> err_is e ErrCanceled))"
  shows "fst (meta_Terminate net c version phoneID token callID) = Inr out"
proof -
  have "retryable retryAny (Some e)" if "case as_http_status e of Some code \<Rightarrow> code = 429 \<or> 500 \<le> code
      | None \<Rightarrow> \<not> err_is e ErrCanceled" for e
    using that by (auto simp: retryable_def split: option.splits)
  with assms have "fst (call_from 1 net c retryAny version phoneID token (terminate_body callID)) = Inr out"
    by (intro call_from_reaches [of 1 k]) (auto simp: maxAttempts_def)
  then show ?thesis by (simp add: meta_Terminate_def meta_call_def terminate_body_def)
qed

theorem terminate_gets_through_witness:
  "fst (meta_Terminate (answering [502, 500]) New ''v23.0'' ''1'' ''tok'' ''call'') = Inr []"
proof -
  have 1: "fst (callOnce (answering [502, 500]) 1 New ''v23.0'' ''1'' ''tok'' (terminate_body ''call'')) =
      Inl (HTTPStatusError 502 ''x'')" by (simp add: answering_once read_response_def terminate_body_def)
  have 2: "fst (callOnce (answering [502, 500]) 2 New ''v23.0'' ''1'' ''tok'' (terminate_body ''call'')) =
      Inl (HTTPStatusError 500 ''x'')" by (simp add: answering_once read_response_def terminate_body_def)
  have 3: "fst (callOnce (answering [502, 500]) 3 New ''v23.0'' ''1'' ''tok'' (terminate_body ''call'')) = Inr []"
    by (simp add: answering_once read_response_def terminate_body_def)
  show ?thesis
  proof (rule terminate_gets_through [of 3, OF _ _ 3])
    fix i :: nat assume "1 \<le> i" "i < 3"
    then have "i = 1 \<or> i = 2" by auto
    with 1 2 show "nw_backoff_elapses (answering [502, 500]) i (backoff New i) \<and>
       (\<exists>e. fst (callOnce (answering [502, 500]) i New ''v23.0'' ''1'' ''tok'' (terminate_body ''call'')) = Inl e \<and>
          (case as_http_status e of Some code \<Rightarrow> code = 429 \<or> 500 \<le> code
             | None \<Rightarrow> \<not> err_is e ErrCanceled))"
      by auto
  qed simp_all
qed

text \<open>
  The API version may be given as "23.0" or as "v23.0": both produce the same request,
  a POST to base/v23.0/phone/calls with the bearer token.
\<close>

lemma callOnce_version_normalised:
  assumes "is_ascii ver" "ver \<noteq> []" "\<not> is_space (byte (hd ver))" "\<not> is_space (byte (last ver))"
    and "hd ver \<noteq> CHR ''v''"
  shows "callOnce net n c (''v'' @ ver) phoneID token body = callOnce net n c ver phoneID token body
    \<and> (\<forall>req. snd (callOnce net n c ver phoneID token body) = Some req \<longrightarrow>
         hr_method req = ''POST''
         \<and> hr_url req = trim_right (cl_BaseURL c) CHR ''/'' @ ''/v'' @ ver @ ''/'' @ phoneID @ ''/calls''
         \<and> map_of (hr_headers req) ''Authorization'' = Some (''Bearer '' @ token)
         \<and> hr_body req = body)"
proof -
  obtain x xs where ver: "ver = x # xs" using assms(2) by (cases ver) auto
  have "trim_space (''v'' @ ver) = ''v'' @ ver"
    using assms by (intro trim_space_ascii) (auto simp: is_space_def)
  moreover have "trim_space ver = ver" using assms by (intro trim_space_ascii)
  moreover have "trim_prefix ver ''v'' = ver" using assms(5) by (simp add: trim_prefix_def has_prefix_def ver)
  ultimately show ?thesis
    using assms(2) trim_prefix_append [of "''v''" ver]
    by (auto simp: callOnce_def Let_def split: option.splits http_outcome.splits if_splits)
qed

lemma callOnce_version_normalised_example:
  "callOnce (answering []) 1 New ''v23.0'' ''1'' ''tok'' (terminate_body ''call'')
     = callOnce (answering []) 1 New ''23.0'' ''1'' ''tok'' (terminate_body ''call'')"
  using callOnce_version_normalised [of "''23.0''" "answering []" 1 New "''1''" "''tok''" "terminate_body ''call''"]
  by (simp add: is_space_def)

lemma replace_all_length: "length (replace_all c [x] s) = length s"
  by (induction s) (simp_all add: replace_all_def)

text \<open>
  The text of an API error kept in the error value is at most 512 bytes and holds no
  line breaks, so it cannot forge log lines.
\<close>

lemma sanitize_bounded:
  "length (sanitize s) \<le> 512 \<and> CHR 0x0A \<notin> set (sanitize s) \<and> CHR 0x0D \<notin> set (sanitize s)"
proof -
  let ?t = "replace_all (CHR 0x0A) '' '' (if 512 < length s then take 512 s else s)"
  have s: "sanitize s = replace_all (CHR 0x0D) '' '' ?t" by (simp add: sanitize_def Let_def)
  have blank: "CHR 0x0A \<noteq> CHR '' ''" "CHR 0x0D \<noteq> CHR '' ''" by simp_all
  then have "CHR 0x0A \<notin> set ?t" by (intro replace_all_absent) simp
  then have "CHR 0x0A \<notin> set (sanitize s)"
    unfolding s using blank by (auto simp: replace_all_def split: if_splits)
  moreover have "CHR 0x0D \<notin> set (sanitize s)"
    unfolding s using blank by (intro replace_all_absent) simp
  moreover have "length (sanitize s) \<le> 512" by (simp add: s replace_all_length)
  ultimately show ?thesis by blast
qed

end
