(* ===== verification/Manager.thy ===== *)
theory Manager
  imports Call Ports MetaClient
begin

text \<open>
  \<open>internal/call/manager.go\<close>, the registry of calls: \<open>Accept\<close>, \<open>Dial\<close>, \<open>Connect\<close>,
  \<open>Disconnect\<close>, \<open>Shutdown\<close> and \<open>finish\<close>. Calls live in a heap (a map from references), since a
  call outlives its registration. Each critical section of \<open>m.mu\<close> is one function; \<open>Accept\<close>
  and \<open>Dial\<close> have two with the slow set-up between them, and are also given as a whole for an
  undisturbed run. \<open>mstep\<close> interleaves these sections with the goroutines of all calls.
\<close>

section \<open>State\<close>

record mconfig =
  mc_PublicIP :: ipv4
  mc_SetupTimeout :: duration
  mc_MediaTimeout :: duration
  mc_MaxCallDuration :: duration
  mc_RTCPInterval :: duration
  mc_StatsInterval :: duration

record manager =
  mg_conf :: mconfig
  mg_ports :: PortAllocator
  mg_calls :: "string \<Rightarrow> nat option"
  mg_draining :: bool
  mg_wg :: nat
  mg_heap :: "nat \<Rightarrow> csys option"
  mg_next :: nat

definition NewManager :: "mconfig \<Rightarrow> int \<Rightarrow> int \<Rightarrow> manager" where
  "NewManager conf portMin portMax = \<lparr>mg_conf = conf, mg_ports = \<lparr>pa_min = portMin, pa_max = portMax, pa_next = 0\<rparr>,
     mg_calls = (\<lambda>_. None), mg_draining = False, mg_wg = 0, mg_heap = (\<lambda>_. None), mg_next = 0\<rparr>"

text \<open>What the operating system, the random source, the clock and the third-party parsers answer
  during one request.\<close>

record world =
  w_bind :: "int \<Rightarrow> bool"
  w_create :: "nat list result"
  w_sha256 :: "nat list \<Rightarrow> nat list"
  w_unmarshal :: sdp_parser
  w_candidate :: candidate_parser
  w_rand :: "nat \<Rightarrow> nat list result"
  w_now :: go_time
  w_uuid_room :: string
  w_uuid_identity :: string

section \<open>Accepting a call\<close>

definition accept_fields :: "callParams \<Rightarrow> bool" where
  "accept_fields p \<longleftrightarrow> cp_PhoneID p \<noteq> [] \<and> cp_APIToken p \<noteq> [] \<and> cp_APIVersion p \<noteq> [] \<and> cp_CallID p \<noteq> [] \<and> cp_SDP p \<noteq> []"

definition draining_error :: go_error where "draining_error = ErrText ''connector is draining''"

text \<open>The first critical section: refused, the call already registered, or nothing known.\<close>

definition Accept_enter :: "callParams \<Rightarrow> manager \<Rightarrow> nat option result" where
  "Accept_enter p m =
     (if \<not> accept_fields p then Inl (ErrText ''required WhatsApp call fields are missing'')
      else if mg_draining m then Inl draining_error
      else Inr (mg_calls m (cp_CallID p)))"

definition default_names :: "world \<Rightarrow> callParams \<Rightarrow> callParams" where
  "default_names w p =
     (let p1 = (if cp_RoomName p = [] then p\<lparr>cp_RoomName := ''whatsapp-'' @ w_uuid_room w\<rparr> else p)
      in if cp_Identity p1 = [] then p1\<lparr>cp_Identity := ''whatsapp-'' @ w_uuid_identity w\<rparr> else p1)"

text \<open>Socket, certificate and SDP; every failure closes the socket again.\<close>

definition Accept_prepare :: "world \<Rightarrow> callParams \<Rightarrow> manager \<Rightarrow> call result \<times> manager" where
  "Accept_prepare w p m =
     (let p1 = default_names w p;
          (l, ports) = port_Listen (w_bind w) (mg_ports m);
          m1 = m\<lparr>mg_ports := ports\<rparr>
      in (case l of
            Inl e \<Rightarrow> (Inl e, m1)
          | Inr port \<Rightarrow>
         (case NewCertificate (w_create w) (w_sha256 w) of
            Inl e \<Rightarrow> (Inl e, m1)
          | Inr cert \<Rightarrow>
         (case ParseOfferAndAnswer (w_unmarshal w) (w_candidate w) (w_rand w) (w_now w) (cp_SDP p1) cert
                 (Addr4 (mc_PublicIP (mg_conf m))) port of
            Inl e \<Rightarrow> (Inl e, m1)
          | Inr n \<Rightarrow> (Inr (new_inbound p1 (ng_Answer n)), m1)))))"

definition setup_timeout :: "manager \<Rightarrow> callParams \<Rightarrow> duration" where
  "setup_timeout m p =
     (if 0 < cp_Timeout p \<and> cp_Timeout p < mc_SetupTimeout (mg_conf m) then cp_Timeout p else mc_SetupTimeout (mg_conf m))"

definition register :: "call \<Rightarrow> manager \<Rightarrow> manager" where
  "register c m = m\<lparr>mg_calls := (mg_calls m)(cp_CallID (ca_params c) \<mapsto> mg_next m), mg_wg := mg_wg m + 1,
     mg_heap := (mg_heap m)(mg_next m \<mapsto> start_call c), mg_next := mg_next m + 1\<rparr>"

text \<open>The second critical section: another request may have registered the call meanwhile; then
  the new transport is closed and the old call is used. The reference of the call to use, and
  whether it is the new one.\<close>

definition Accept_register :: "call \<Rightarrow> manager \<Rightarrow> (nat \<times> bool) \<times> manager" where
  "Accept_register c m =
     (case mg_calls m (cp_CallID (ca_params c)) of
        Some r \<Rightarrow> ((r, False), m)
      | None \<Rightarrow> ((mg_next m, True), register c m))"

definition room_of :: "manager \<Rightarrow> nat \<Rightarrow> string" where
  "room_of m r = (case mg_heap m r of Some s \<Rightarrow> ca_room (cs_c s) | None \<Rightarrow> [])"

definition update_call :: "nat \<Rightarrow> (call \<Rightarrow> call) \<Rightarrow> manager \<Rightarrow> manager" where
  "update_call r f m = m\<lparr>mg_heap := (mg_heap m)(r := map_option (\<lambda>s. s\<lparr>cs_c := f (cs_c s)\<rparr>) (mg_heap m r))\<rparr>"

text \<open>The wait at the end; \<open>res\<close> is what \<open>c.wait\<close> returned. A failed wait on the new call stops it.\<close>

definition Accept_wait :: "callParams \<Rightarrow> go_error option \<Rightarrow> nat \<Rightarrow> bool \<Rightarrow> manager \<Rightarrow> string \<times> go_error option \<times> manager" where
  "Accept_wait p res r fresh m =
     (if \<not> cp_Wait p then (room_of m r, None, m)
      else if res \<noteq> None \<and> fresh then (room_of m r, res, update_call r stopBusiness m)
      else (room_of m r, res, m))"

definition mgr_Accept :: "world \<Rightarrow> go_error option \<Rightarrow> callParams \<Rightarrow> manager \<Rightarrow> string \<times> go_error option \<times> manager" where
  "mgr_Accept w res p m =
     (case Accept_enter p m of
        Inl e \<Rightarrow> ([], Some e, m)
      | Inr (Some r) \<Rightarrow> Accept_wait p res r False m
      | Inr None \<Rightarrow>
          (case Accept_prepare w p m of
             (Inl e, m1) \<Rightarrow> ([], Some e, m1)
           | (Inr c, m1) \<Rightarrow>
               (case Accept_register c m1 of ((r, fresh), m2) \<Rightarrow> Accept_wait p res r fresh m2)))"

section \<open>Dialling a call\<close>

record dialParams =
  dp_base :: callParams
  dp_To :: string
  dp_Opaque :: string

definition dial_fields :: "dialParams \<Rightarrow> bool" where
  "dial_fields p \<longleftrightarrow> cp_PhoneID (dp_base p) \<noteq> [] \<and> cp_APIToken (dp_base p) \<noteq> [] \<and> cp_APIVersion (dp_base p) \<noteq> [] \<and> dp_To p \<noteq> []"

definition Dial_enter :: "dialParams \<Rightarrow> manager \<Rightarrow> unit result" where
  "Dial_enter p m =
     (if \<not> dial_fields p then Inl (ErrText ''required outbound WhatsApp call fields are missing'')
      else if mg_draining m then Inl draining_error else Inr ())"

text \<open>Socket, certificate, offer and the request to Meta, which allots the call id. The attempts
  at Meta's API are returned as well.\<close>

definition Dial_prepare :: "world \<Rightarrow> network \<Rightarrow> client \<Rightarrow> dialParams \<Rightarrow> manager \<Rightarrow> call result \<times> attempt list \<times> manager" where
  "Dial_prepare w net cl p m =
     (let b = default_names w (dp_base p);
          (l, ports) = port_Listen (w_bind w) (mg_ports m);
          m1 = m\<lparr>mg_ports := ports\<rparr>
      in (case l of
            Inl e \<Rightarrow> (Inl e, [], m1)
          | Inr port \<Rightarrow>
         (case NewCertificate (w_create w) (w_sha256 w) of
            Inl e \<Rightarrow> (Inl e, [], m1)
          | Inr cert \<Rightarrow>
         (case NewOffer (w_rand w) (w_now w) (Some cert) (Addr4 (mc_PublicIP (mg_conf m))) port of
            Inl e \<Rightarrow> (Inl e, [], m1)
          | Inr n \<Rightarrow>
         (case meta_Dial net cl (cp_APIVersion b) (cp_PhoneID b) (cp_APIToken b) (dp_To p) (dp_Opaque p) (ng_Answer n) of
            (Inl e, tries) \<Rightarrow> (Inl e, tries, m1)
          | (Inr callID, tries) \<Rightarrow>
              (Inr (new_outbound (b\<lparr>cp_CallID := callID, cp_SDP := [], cp_Wait := False\<rparr>) n), tries, m1))))))"

text \<open>\<open>stopBusiness\<close> and \<open>cleanup\<close> of a call that was never registered.\<close>

definition discard :: "call \<Rightarrow> csys" where
  "discard c = call_cleanup (start_call (stopBusiness c))"

definition Dial_register :: "call \<Rightarrow> manager \<Rightarrow> csys option \<times> manager" where
  "Dial_register c m = (if mg_draining m then (Some (discard c), m) else (None, register c m))"

definition mgr_Dial :: "world \<Rightarrow> network \<Rightarrow> client \<Rightarrow> dialParams \<Rightarrow> manager \<Rightarrow> (string \<times> string) result \<times> manager" where
  "mgr_Dial w net cl p m =
     (case Dial_enter p m of
        Inl e \<Rightarrow> (Inl e, m)
      | Inr u \<Rightarrow>
          (case Dial_prepare w net cl p m of
             (Inl e, tries, m1) \<Rightarrow> (Inl e, m1)
           | (Inr c, tries, m1) \<Rightarrow>
               (case Dial_register c m1 of
                  (Some s, m2) \<Rightarrow> (Inl draining_error, m2)
                | (None, m2) \<Rightarrow> (Inr (cp_CallID (ca_params c), ca_room c), m2))))"

section \<open>Connecting, disconnecting, shutting down\<close>

definition mgr_Connect :: "world \<Rightarrow> go_error option \<Rightarrow> string \<Rightarrow> string \<Rightarrow> bool \<Rightarrow> manager \<Rightarrow> go_error option \<times> manager" where
  "mgr_Connect w res callID answer wait m =
     (case mg_calls m callID of
        None \<Rightarrow> (Some (ErrText ''outbound WhatsApp call not found''), m)
      | Some r \<Rightarrow>
          (case mg_heap m r of
             None \<Rightarrow> (Some (ErrText ''outbound WhatsApp call not found''), m)
           | Some s \<Rightarrow>
               (case call_Connect (w_unmarshal w) (w_candidate w) answer (cs_c s) of
                  (e, c) \<Rightarrow>
                    let m1 = m\<lparr>mg_heap := (mg_heap m)(r \<mapsto> s\<lparr>cs_c := c\<rparr>)\<rparr>
                    in (if e \<noteq> None then (e, m1) else if wait then (res, m1) else (None, m1)))))"

definition mgr_Disconnect :: "string \<Rightarrow> bool \<Rightarrow> string \<Rightarrow> manager \<Rightarrow> manager" where
  "mgr_Disconnect callID user tok m =
     (case mg_calls m callID of None \<Rightarrow> m | Some r \<Rightarrow> update_call r (call_Disconnect user tok) m)"

text \<open>A call is registered exactly under its own id.\<close>

definition registered :: "manager \<Rightarrow> nat \<Rightarrow> bool" where
  "registered m r = (case mg_heap m r of Some s \<Rightarrow> mg_calls m (cp_CallID (ca_params (cs_c s))) = Some r | None \<Rightarrow> False)"

text \<open>\<open>Shutdown\<close> up to its wait: every registered call is stopped.\<close>

definition mgr_Shutdown :: "manager \<Rightarrow> manager" where
  "mgr_Shutdown m = m\<lparr>mg_draining := True,
     mg_heap := (\<lambda>r. if registered m r then map_option (\<lambda>s. s\<lparr>cs_c := stopBusiness (cs_c s)\<rparr>) (mg_heap m r) else mg_heap m r)\<rparr>"

text \<open>The wait: nil when the wait group is empty, the context's error when that has ended;
  \<open>done_first\<close> is the choice of \<open>select\<close> when both hold, \<open>None\<close> means that it blocks.\<close>

definition shutdown_wait :: "bool \<Rightarrow> go_error option \<Rightarrow> manager \<Rightarrow> go_error option option" where
  "shutdown_wait done_first ctx m =
     (if mg_wg m = 0 \<and> (done_first \<or> ctx = None) then Some None else map_option Some ctx)"

text \<open>\<open>finish\<close> after \<open>cleanup\<close>: removal from the registry, then \<open>wg.Done\<close> and \<open>close(c.done)\<close>.\<close>

definition finish_delete :: "nat \<Rightarrow> manager \<Rightarrow> manager" where
  "finish_delete r m =
     (case mg_heap m r of
        None \<Rightarrow> m
      | Some s \<Rightarrow> m\<lparr>mg_calls := (mg_calls m)(cp_CallID (ca_params (cs_c s)) := None), mg_heap := (mg_heap m)(r \<mapsto> s\<lparr>cs_pc := P_wg\<rparr>)\<rparr>)"

definition finish_done :: "nat \<Rightarrow> manager \<Rightarrow> manager" where
  "finish_done r m =
     (case mg_heap m r of
        None \<Rightarrow> m
      | Some s \<Rightarrow> m\<lparr>mg_wg := mg_wg m - 1,
          mg_heap := (mg_heap m)(r \<mapsto> s\<lparr>cs_pc := P_done, cs_c := (cs_c s)\<lparr>ca_done := ca_done (cs_c s) + 1\<rparr>\<rparr>)\<rparr>)"

section \<open>The manager with all its goroutines\<close>

definition mgr_init :: "manager \<Rightarrow> bool" where
  "mgr_init m \<longleftrightarrow> (\<exists>conf portMin portMax. m = NewManager conf portMin portMax)"

inductive mstep :: "duration \<Rightarrow> manager \<Rightarrow> manager \<Rightarrow> bool" for d where
  accept: "Accept_register (new_inbound p answer) m = (x, m') \<Longrightarrow> mstep d m m'"
| dial: "Dial_register (new_outbound p n) m = (x, m') \<Longrightarrow> mstep d m m'"
| ports: "mstep d m (m\<lparr>mg_ports := ps\<rparr>)"
| call: "mg_heap m r = Some s \<Longrightarrow> cstep d s t \<Longrightarrow> mstep d m (m\<lparr>mg_heap := (mg_heap m)(r \<mapsto> t)\<rparr>)"
| shutdown: "mstep d m (mgr_Shutdown m)"
| delete: "mg_heap m r = Some s \<Longrightarrow> cs_pc s = P_delete \<Longrightarrow> mstep d m (finish_delete r m)"
| finished: "mg_heap m r = Some s \<Longrightarrow> cs_pc s = P_wg \<Longrightarrow> mstep d m (finish_done r m)"

text \<open>The calls whose goroutine has not finished.\<close>

definition unfinished :: "manager \<Rightarrow> nat set" where
  "unfinished m = {r. \<exists>s. mg_heap m r = Some s \<and> cs_pc s \<noteq> P_done}"

definition wg_inv :: "manager \<Rightarrow> bool" where
  "wg_inv m \<longleftrightarrow> (\<forall>r. mg_heap m r \<noteq> None \<longleftrightarrow> r < mg_next m) \<and> mg_wg m = card (unfinished m)"

definition calls_inv :: "manager \<Rightarrow> bool" where
  "calls_inv m \<longleftrightarrow> (\<forall>r s. mg_heap m r = Some s \<longrightarrow> call_inv s)"

definition drain_inv :: "manager \<Rightarrow> bool" where
  "drain_inv m \<longleftrightarrow> (mg_draining m \<longrightarrow>
     (\<forall>r s. mg_heap m r = Some s \<and> registered m r \<and> ca_outbound (cs_c s) \<longrightarrow> ca_cancelled (cs_c s)))"

text \<open>Every entry of the registry is a call of that id that has not been removed.\<close>

definition reg_inv :: "manager \<Rightarrow> bool" where
  "reg_inv m \<longleftrightarrow> (\<forall>cid r. mg_calls m cid = Some r \<longrightarrow>
     (\<exists>s. mg_heap m r = Some s \<and> cp_CallID (ca_params (cs_c s)) = cid \<and> 3 \<le> prank (cs_pc s)))"

definition mgr_inv :: "manager \<Rightarrow> bool" where
  "mgr_inv m \<longleftrightarrow> wg_inv m \<and> calls_inv m \<and> drain_inv m \<and> reg_inv m"

lemma unfinished_finite: "wg_inv m \<Longrightarrow> finite (unfinished m)"
proof -
  assume "wg_inv m"
  then have "unfinished m \<subseteq> {..<mg_next m}" by (auto simp: wg_inv_def unfinished_def)
  then show ?thesis by (rule finite_subset) simp
qed

lemma wg_inv_register: "wg_inv m \<Longrightarrow> wg_inv (register c m)"
proof -
  assume inv: "wg_inv m"
  then have "unfinished (register c m) = insert (mg_next m) (unfinished m)" "mg_next m \<notin> unfinished m"
    by (auto simp: wg_inv_def unfinished_def register_def start_call_def)
  with inv unfinished_finite [OF inv] show ?thesis
    by (auto simp: wg_inv_def register_def)
qed

lemma wg_inv_update:
  assumes "wg_inv m" "mg_heap m r = Some s" "cs_pc s = P_done \<longleftrightarrow> cs_pc t = P_done"
    and "mg_heap m' = (mg_heap m)(r \<mapsto> t)" "mg_wg m' = mg_wg m" "mg_next m' = mg_next m"
  shows "wg_inv m'"
proof -
  have "unfinished m' = unfinished m" using assms(2-4) by (auto simp: unfinished_def)
  with assms show ?thesis by (auto simp: wg_inv_def)
qed

lemma wg_inv_done:
  assumes "wg_inv m" "mg_heap m r = Some s" "cs_pc s = P_wg"
  shows "wg_inv (finish_done r m)"
proof -
  have "unfinished (finish_done r m) = unfinished m - {r}" "r \<in> unfinished m"
    using assms(2,3) by (auto simp: unfinished_def finish_done_def)
  with assms unfinished_finite [OF assms(1)] show ?thesis
    by (auto simp: wg_inv_def finish_done_def)
qed

lemma cstep_done: "cstep d s t \<Longrightarrow> cs_pc s = P_done \<longleftrightarrow> cs_pc t = P_done"
  unfolding cstep_def by (elim disjE run_step.cases ext_step.cases) (auto simp: failed_def)

lemma cstep_prank: "cstep d s t \<Longrightarrow> 3 \<le> prank (cs_pc s) \<Longrightarrow> 3 \<le> prank (cs_pc t)"
  unfolding cstep_def by (elim disjE run_step.cases ext_step.cases) (auto simp: failed_def)

lemma wg_inv_step: "mstep d m m' \<Longrightarrow> wg_inv m \<Longrightarrow> wg_inv m'"
proof (erule mstep.cases)
  fix ma r s t
  assume "wg_inv m" "m = ma" "m' = ma\<lparr>mg_heap := (mg_heap ma)(r \<mapsto> t)\<rparr>" "mg_heap ma r = Some s" "cstep d s t"
  then show "wg_inv m'" using wg_inv_update [of ma r s t m'] cstep_done [of d s t] by auto
next
  fix ma
  assume inv: "wg_inv m" and m: "m = ma" "m' = mgr_Shutdown ma"
  have "unfinished (mgr_Shutdown ma) = unfinished ma" by (auto simp: unfinished_def mgr_Shutdown_def)
  with inv m show "wg_inv m'" by (auto simp: wg_inv_def mgr_Shutdown_def)
next
  fix ma r s
  assume "wg_inv m" "m = ma" "m' = finish_delete r ma" "mg_heap ma r = Some s" "cs_pc s = P_delete"
  then show "wg_inv m'" using wg_inv_update [of ma r s "s\<lparr>cs_pc := P_wg\<rparr>" m'] by (simp add: finish_delete_def)
next
  fix ma r s
  assume "wg_inv m" "m = ma" "m' = finish_done r ma" "mg_heap ma r = Some s" "cs_pc s = P_wg"
  then show "wg_inv m'" using wg_inv_done by simp
qed (auto simp: Accept_register_def Dial_register_def wg_inv_register split: option.splits if_splits, simp add: wg_inv_def unfinished_def)

lemma cstep_keeps:
  assumes "cstep d s t"
  shows "cp_CallID (ca_params (cs_c t)) = cp_CallID (ca_params (cs_c s))" "ca_outbound (cs_c t) = ca_outbound (cs_c s)"
    "ca_cancelled (cs_c s) \<Longrightarrow> ca_cancelled (cs_c t)"
  using assms unfolding cstep_def
  by (elim disjE run_step.cases ext_step.cases; (elim awaitEnd_cases call_Connect_cases)?; simp add: call_op_defs)+

lemma call_inv_pc: "call_inv s \<Longrightarrow> cs_pc s = P_delete \<Longrightarrow> call_inv (s\<lparr>cs_pc := P_wg\<rparr>)"
  "call_inv s \<Longrightarrow> cs_pc s = P_wg \<Longrightarrow> call_inv (s\<lparr>cs_pc := P_done, cs_c := (cs_c s)\<lparr>ca_done := n\<rparr>\<rparr>)"
  by (auto simp: call_inv_def flag_inv_def call_ready_inv_def term_inv_def res_inv_def Let_def)

lemma call_inv_stop: "call_inv s \<Longrightarrow> call_inv (s\<lparr>cs_c := stopBusiness (cs_c s)\<rparr>)"
  using a_call.steps_inv ext_csteps stop_business_steps by blast

lemma call_inv_new: "call_inv (start_call (new_inbound p a))" "call_inv (start_call (new_outbound p n))"
  by (rule call_inv_init; unfold call_init_def; blast)+

lemma calls_inv_step: "mstep d m m' \<Longrightarrow> calls_inv m \<Longrightarrow> calls_inv m'"
  by (erule mstep.cases)
     (auto simp: calls_inv_def Accept_register_def Dial_register_def register_def mgr_Shutdown_def finish_delete_def finish_done_def
        call_inv_new split: option.splits if_splits intro: a_call.inv_step call_inv_stop call_inv_pc)

lemma drain_inv_step: "mstep d m m' \<Longrightarrow> wg_inv m \<Longrightarrow> drain_inv m \<Longrightarrow> drain_inv m'"
proof (erule mstep.cases)
  fix p answer ma x m1
  assume a: "wg_inv m" "drain_inv m" "m = ma" "m' = m1" "Accept_register (new_inbound p answer) ma = (x, m1)"
  have new: "mg_heap ma (mg_next ma) = None" using a(1,3) by (auto simp: wg_inv_def)
  show "drain_inv m'"
  proof (cases "mg_calls ma (cp_CallID p)")
    case None
    with a new show ?thesis
      by (auto simp: drain_inv_def registered_def Accept_register_def register_def new_inbound_def start_call_def
          split: if_splits option.splits)
  qed (use a in \<open>simp add: Accept_register_def new_inbound_def\<close>)
next
  fix ma r s t
  assume a: "drain_inv m" "m = ma" "m' = ma\<lparr>mg_heap := (mg_heap ma)(r \<mapsto> t)\<rparr>" "mg_heap ma r = Some s" "cstep d s t"
  then show "drain_inv m'" using cstep_keeps [OF a(5)]
    by (auto simp: drain_inv_def registered_def split: if_splits option.splits)
next
  fix ma
  assume "m = ma" "m' = mgr_Shutdown ma"
  then show "drain_inv m'"
    by (auto simp: drain_inv_def registered_def mgr_Shutdown_def call_op_defs split: if_splits option.splits)
qed (auto simp: drain_inv_def registered_def Dial_register_def register_def finish_delete_def finish_done_def
       split: if_splits option.splits)

lemma reg_inv_register:
  assumes "wg_inv m" "reg_inv m"
  shows "reg_inv (register c m)"
proof -
  have "mg_heap m (mg_next m) = None" using assms(1) by (auto simp: wg_inv_def)
  with assms(2) show ?thesis
    by (auto simp: reg_inv_def register_def start_call_def split: if_splits) (metis option.distinct(1))
qed

lemma reg_inv_step:
  assumes "mstep d m m'" "wg_inv m" "reg_inv m"
  shows "reg_inv m'"
  using assms(1)
proof (cases rule: mstep.cases)
  case (call r s t)
  with assms(3) cstep_keeps(1) [OF call(3)] cstep_prank [OF call(3)] show ?thesis
    by (fastforce simp: reg_inv_def)
next
  case shutdown
  have "mg_calls m' = mg_calls m" by (simp add: shutdown mgr_Shutdown_def)
  moreover have "\<exists>t. mg_heap m' r = Some t \<and> ca_params (cs_c t) = ca_params (cs_c s) \<and> cs_pc t = cs_pc s"
    if "mg_heap m r = Some s" for r s
    using that by (simp add: shutdown mgr_Shutdown_def call_op_defs)
  ultimately show ?thesis using assms(3) unfolding reg_inv_def by metis
next
  case (delete r s)
  with assms(3) show ?thesis
    by (auto simp: reg_inv_def finish_delete_def split: if_splits) (metis option.inject)
next
  case (finished r s)
  have "mg_calls m cid \<noteq> Some r" for cid
    using assms(3) finished(2,3) by (fastforce simp: reg_inv_def)
  then show ?thesis using assms(3) finished by (auto simp: reg_inv_def finish_done_def)
qed (use assms(2,3) reg_inv_register in \<open>auto simp: Accept_register_def Dial_register_def reg_inv_def split: option.splits if_splits\<close>)

interpretation mgr: safe_system mgr_init "mstep d" mgr_inv
proof
  show "mgr_init m \<Longrightarrow> mgr_inv m" for m
    by (auto simp: mgr_init_def mgr_inv_def wg_inv_def calls_inv_def drain_inv_def reg_inv_def unfinished_def NewManager_def)
  show "mgr_inv m \<Longrightarrow> mstep d m m' \<Longrightarrow> mgr_inv m'" for m m'
    by (auto simp: mgr_inv_def intro: wg_inv_step calls_inv_step drain_inv_step reg_inv_step)
qed

section \<open>Accepting twice\<close>

lemma default_names_keeps: "cp_CallID (default_names w p) = cp_CallID p"
  by (simp add: default_names_def Let_def)

lemma Accept_prepare_call:
  assumes "Accept_prepare w p m = (Inr c, m1)"
  shows "cp_CallID (ca_params c) = cp_CallID p" "mg_calls m1 = mg_calls m" "mg_draining m1 = mg_draining m"
    "ca_room c = cp_RoomName (default_names w p)"
  using assms
  by (auto simp: Accept_prepare_def new_inbound_def default_names_keeps Let_def split: prod.splits sum.splits)

lemma Accept_known:
  "Accept_enter p m = Inr (Some r) \<Longrightarrow> \<not> cp_Wait p \<Longrightarrow> mgr_Accept w res p m = (room_of m r, None, m)"
  by (simp add: mgr_Accept_def Accept_wait_def)

section \<open>A concrete manager\<close>

definition demo_mgr :: manager where
  "demo_mgr = NewManager \<lparr>mc_PublicIP = (10, 0, 0, 1), mc_SetupTimeout = 30 * second, mc_MediaTimeout = 20 * second,
     mc_MaxCallDuration = 2 * hour, mc_RTCPInterval = 2 * second, mc_StatsInterval = 15 * second\<rparr> 40000 49999"

definition demo_one :: manager where "demo_one = register demo_call demo_mgr"

lemma demo_mgr_reach: "reach mgr_init (mstep d) demo_mgr"
  by (rule reach_init) (auto simp: mgr_init_def demo_mgr_def)

lemma demo_accept: "mg_calls m (cp_CallID demo_params) = None \<Longrightarrow> mstep d m (register demo_call m)"
  using mstep.accept [of demo_params "''answer''" m "(mg_next m, True)" "register demo_call m" d]
  by (simp add: Accept_register_def demo_call_def new_inbound_def)

lemma demo_one_reach: "reach mgr_init (mstep d) demo_one"
proof -
  have "mstep d demo_mgr demo_one"
    unfolding demo_one_def by (rule demo_accept) (simp add: demo_mgr_def NewManager_def)
  with demo_mgr_reach show ?thesis by (rule reach_step)
qed

text \<open>A request that succeeds: Meta's offer is the one of the theory \<open>Sdp\<close>.\<close>

definition demo_world :: world where
  "demo_world = \<lparr>w_bind = (\<lambda>_. True), w_create = Inr [], w_sha256 = (\<lambda>_. replicate 32 170),
     w_unmarshal = (\<lambda>_. Inr (described ''111'' ''actpass'' (demo_local ''actpass'' False))), w_candidate = demo_candidate,
     w_rand = demo_rand, w_now = 0, w_uuid_room = ''1'', w_uuid_identity = ''2''\<rparr>"

lemma demo_offer_accepted:
  "\<exists>n. ParseOfferAndAnswer (w_unmarshal demo_world) demo_candidate demo_rand 0 raw cert ip port = Inr n"
proof -
  let ?a = "demo_local ''actpass'' False"
  have "w_unmarshal demo_world raw = Inr (described ''111'' ''actpass'' ?a)" by (simp add: demo_world_def)
  then show ?thesis
    using offer_accepted [where unmarshal = "w_unmarshal demo_world" and raw = raw and a = ?a and uc = demo_candidate
        and c = demo_cert and ip = "(10, 0, 0, 1)" and p = 9 and rand = demo_rand and now = 0 and cert = cert
        and ipB = ip and port = port, OF _ demo_reads _ demo_cert_ok _ _ _ _ _ demo_credential demo_credential]
    by (simp add: demo_local_sel hex_encode_empty) blast
qed

lemma demo_first_accept: "\<exists>room m1. mgr_Accept demo_world None demo_params demo_mgr = (room, None, m1)"
proof -
  have enter: "Accept_enter demo_params demo_mgr = Inr None"
    by (simp add: Accept_enter_def accept_fields_def demo_params_def demo_mgr_def NewManager_def)
  have "fst (port_Listen (w_bind demo_world) (mg_ports demo_mgr)) = Inr 40000"
    by (simp add: port_Listen_def demo_world_def demo_mgr_def NewManager_def listen_loop.simps Let_def)
  then obtain ps where "port_Listen (w_bind demo_world) (mg_ports demo_mgr) = (Inr 40000, ps)"
    by (metis prod.collapse)
  moreover have "NewCertificate (w_create demo_world) (w_sha256 demo_world) = Inr demo_cert"
    by (simp add: NewCertificate_def demo_world_def demo_cert_def fingerprint_of_def)
  moreover obtain n where "ParseOfferAndAnswer (w_unmarshal demo_world) demo_candidate demo_rand 0
      (cp_SDP (default_names demo_world demo_params)) demo_cert (Addr4 (mc_PublicIP (mg_conf demo_mgr))) 40000 = Inr n"
    using demo_offer_accepted by blast
  moreover have "w_candidate demo_world = demo_candidate" "w_rand demo_world = demo_rand" "w_now demo_world = 0"
    by (simp_all add: demo_world_def)
  ultimately obtain c m1 where prep: "Accept_prepare demo_world demo_params demo_mgr = (Inr c, m1)"
    by (simp add: Accept_prepare_def)
  obtain r fresh m2 where "Accept_register c m1 = ((r, fresh), m2)" by (metis surj_pair)
  with enter prep show ?thesis
    by (simp add: mgr_Accept_def Accept_wait_def demo_params_def)
qed

section \<open>Properties\<close>

text \<open>
  C8: \<open>Shutdown\<close> waits for the right thing: in every reachable state of the manager with any
  number of concurrent calls and requests, the wait group counts exactly the calls whose
  goroutine has not finished; when \<open>Shutdown\<close> returns nil, every call that was ever started
  has closed its socket and bridge, has released its waiters, and has told Meta if that was
  due.
\<close>

theorem shutdown_waits_for_all:
  assumes "reach mgr_init (mstep d) m"
  shows "mg_wg m = card (unfinished m) \<and> finite (unfinished m) \<and>
    (shutdown_wait f ctx m = Some None \<longrightarrow>
      (\<forall>r s. mg_heap m r = Some s \<longrightarrow> cs_pc s = P_done \<and> cs_socketClosed s \<and> cs_bridgeClosed s = ca_bridge (cs_c s) \<and>
         ca_ready (cs_c s) = 1 \<and> (ca_signaled (cs_c s) \<and> \<not> ca_userTerminated (cs_c s) \<longrightarrow> cs_terminates s = 1)))"
proof -
  have inv: "wg_inv m" "calls_inv m" using mgr.reach_inv [OF assms] by (auto simp: mgr_inv_def)
  have fin: "finite (unfinished m)" using inv(1) by (rule unfinished_finite)
  moreover have "cs_pc s = P_done \<and> cs_socketClosed s \<and> cs_bridgeClosed s = ca_bridge (cs_c s) \<and>
         ca_ready (cs_c s) = 1 \<and> (ca_signaled (cs_c s) \<and> \<not> ca_userTerminated (cs_c s) \<longrightarrow> cs_terminates s = 1)"
    if "shutdown_wait f ctx m = Some None" "mg_heap m r = Some s" for r s
  proof -
    have "mg_wg m = 0" using that(1) by (auto simp: shutdown_wait_def split: if_splits)
    with inv(1) fin have "unfinished m = {}" by (simp add: wg_inv_def)
    with that(2) have "cs_pc s = P_done" by (auto simp: unfinished_def)
    moreover have "call_inv s" using inv(2) that(2) by (auto simp: calls_inv_def)
    ultimately show ?thesis by (auto simp: call_inv_def call_ready_inv_def term_inv_def res_inv_def Let_def)
  qed
  ultimately show ?thesis using inv(1) by (auto simp: wg_inv_def)
qed

theorem shutdown_waits_for_all_witness: "mg_wg demo_one = card (unfinished demo_one) \<and> mg_wg demo_one = 1"
  using shutdown_waits_for_all [OF demo_one_reach]
  by (simp add: demo_one_def demo_mgr_def register_def NewManager_def)

text \<open>
  C20: The registry is well formed whatever requests and calls do concurrently: every entry
  refers to an existing call that was registered under exactly this id and has not been
  removed, that call satisfies the invariant of calls, and no call is registered under two
  ids. So \<open>Accept\<close>, \<open>Connect\<close> and \<open>Disconnect\<close> never act on a call of another id or on one that is
  gone.
\<close>

theorem registry_well_formed:
  assumes "reach mgr_init (mstep d) m" "mg_calls m cid = Some r"
  shows "(\<exists>s. mg_heap m r = Some s \<and> cp_CallID (ca_params (cs_c s)) = cid \<and> call_inv s \<and> cs_pc s \<noteq> P_wg \<and> cs_pc s \<noteq> P_done) \<and>
    (mg_calls m cid' = Some r \<longrightarrow> cid' = cid)"
proof -
  have inv: "reg_inv m" "calls_inv m" using mgr.reach_inv [OF assms(1)] by (auto simp: mgr_inv_def)
  with assms(2) obtain s where "mg_heap m r = Some s" "cp_CallID (ca_params (cs_c s)) = cid" "3 \<le> prank (cs_pc s)"
    by (auto simp: reg_inv_def)
  moreover have "cp_CallID (ca_params (cs_c s)) = cid'" if "mg_calls m cid' = Some r"
    using inv(1) that \<open>mg_heap m r = Some s\<close> by (fastforce simp: reg_inv_def)
  ultimately show ?thesis using inv(2) by (auto simp: calls_inv_def)
qed

theorem registry_well_formed_witness: "\<exists>s. mg_heap demo_one 0 = Some s \<and> cp_CallID (ca_params (cs_c s)) = ''wacid.1''"
proof -
  have "mg_calls demo_one ''wacid.1'' = Some 0"
    by (simp add: demo_one_def register_def demo_mgr_def NewManager_def demo_call_def new_inbound_def demo_params_def)
  from registry_well_formed [OF demo_one_reach [of 1] this] show ?thesis by blast
qed

text \<open>
  While the connector drains, no outbound call escapes: every registered outbound call has
  been told to stop, and a call dialled meanwhile is refused, stopped, terminated at Meta and
  its socket closed instead of being registered.
\<close>

lemma draining_stops_outbound:
  assumes "reach mgr_init (mstep d) m" "mg_draining m"
  shows "(\<forall>r s. mg_heap m r = Some s \<and> registered m r \<and> ca_outbound (cs_c s) \<longrightarrow> ca_cancelled (cs_c s)) \<and>
    (\<exists>s. Dial_register (new_outbound p n) m = (Some s, m) \<and> cs_terminates s = 1 \<and> cs_socketClosed s \<and>
       ca_cancelled (cs_c s) \<and> ca_ready (cs_c s) = 1)"
proof -
  have "drain_inv m" using mgr.reach_inv [OF assms(1)] by (simp add: mgr_inv_def)
  with assms(2) show ?thesis
    by (auto simp: drain_inv_def Dial_register_def discard_def call_cleanup_def new_outbound_def call_op_defs start_call_def Let_def)
qed

lemma draining_stops_outbound_example:
  "fst (Dial_register (new_outbound demo_params (demo_local ''actpass'' False)) (mgr_Shutdown demo_one)) \<noteq> None"
proof -
  have "mstep 1 demo_one (mgr_Shutdown demo_one)" by (rule mstep.shutdown)
  with demo_one_reach have "reach mgr_init (mstep 1) (mgr_Shutdown demo_one)" by (rule reach_step)
  moreover have "mg_draining (mgr_Shutdown demo_one)" by (simp add: mgr_Shutdown_def)
  ultimately show ?thesis
    using draining_stops_outbound [of 1 "mgr_Shutdown demo_one" demo_params "demo_local ''actpass'' False"] by auto
qed

text \<open>
  The same does not hold for inbound calls: \<open>Accept\<close> tests \<open>draining\<close> only before its slow
  set-up, so a call can be registered after \<open>Shutdown\<close> has stopped all others, and is then
  running, not told to stop, while the connector drains.
\<close>

lemma accept_escapes_shutdown:
  "\<exists>m r s. reach mgr_init (mstep d) m \<and> mg_draining m \<and> mg_heap m r = Some s \<and> registered m r \<and> \<not> ca_cancelled (cs_c s)"
proof (intro exI conjI)
  let ?m = "register demo_call (mgr_Shutdown demo_mgr)"
  have "mstep d demo_mgr (mgr_Shutdown demo_mgr)" by (rule mstep.shutdown)
  with demo_mgr_reach have "reach mgr_init (mstep d) (mgr_Shutdown demo_mgr)" by (rule reach_step)
  moreover have "mstep d (mgr_Shutdown demo_mgr) ?m"
    by (rule demo_accept) (simp add: mgr_Shutdown_def demo_mgr_def NewManager_def)
  ultimately show "reach mgr_init (mstep d) ?m" by (rule reach_step)
  show "mg_draining ?m" by (simp add: register_def mgr_Shutdown_def)
  show "mg_heap ?m (mg_next demo_mgr) = Some (start_call demo_call)"
    by (simp add: register_def mgr_Shutdown_def)
  show "registered ?m (mg_next demo_mgr)"
    by (simp add: registered_def register_def mgr_Shutdown_def start_call_def)
  show "\<not> ca_cancelled (cs_c (start_call demo_call))"
    by (simp add: start_call_def demo_call_def new_inbound_def)
qed

text \<open>
  Accepting is idempotent: a repeated \<open>Accept\<close> for a call that is still registered (Meta and
  LiveKit both retry) reports the same room as the first one and changes nothing: no second
  call, socket or LiveKit participant.
\<close>

lemma accept_idempotent:
  assumes "mgr_Accept w res p m = (room, None, m1)" "\<not> cp_Wait p" "\<not> cp_Wait p'" "accept_fields p'"
    and "cp_CallID p' = cp_CallID p"
  shows "mgr_Accept w' res' p' m1 = (room, None, m1)"
proof (cases "Accept_enter p m")
  case (Inl e)
  with assms(1) show ?thesis by (simp add: mgr_Accept_def)
next
  case (Inr known)
  then have drain: "\<not> mg_draining m" by (auto simp: Accept_enter_def split: if_splits)
  show ?thesis
  proof (cases known)
    case (Some r)
    with Inr assms(1,2) have "room = room_of m r" "m1 = m" by (auto simp: Accept_known)
    moreover have "Accept_enter p' m1 = Inr (Some r)"
      using Inr Some assms(4,5) drain \<open>m1 = m\<close> by (auto simp: Accept_enter_def split: if_splits)
    ultimately show ?thesis using assms(3) by (simp add: Accept_known)
  next
    case None
    with Inr assms(1) obtain c m2 where prep: "Accept_prepare w p m = (Inr c, m2)"
      by (auto simp: mgr_Accept_def split: prod.splits sum.splits)
    note c = Accept_prepare_call [OF prep]
    have free: "mg_calls m2 (cp_CallID p) = None" "\<not> mg_draining m2"
      using Inr None drain c(2,3) by (auto simp: Accept_enter_def split: if_splits)
    then have reg: "Accept_register c m2 = ((mg_next m2, True), register c m2)"
      using c(1) by (simp add: Accept_register_def)
    with assms(1,2) Inr None prep have m1: "m1 = register c m2" "room = room_of (register c m2) (mg_next m2)"
      by (auto simp: mgr_Accept_def Accept_wait_def)
    then have "Accept_enter p' m1 = Inr (Some (mg_next m2))"
      using free c(1) assms(4,5) by (simp add: Accept_enter_def register_def)
    with m1 assms(3) show ?thesis by (simp add: Accept_known)
  qed
qed

lemma accept_idempotent_example:
  "\<exists>room m1. mgr_Accept demo_world None demo_params demo_mgr = (room, None, m1) \<and>
     mgr_Accept demo_world None demo_params m1 = (room, None, m1)"
proof -
  obtain room m1 where "mgr_Accept demo_world None demo_params demo_mgr = (room, None, m1)"
    using demo_first_accept by blast
  moreover from this have "mgr_Accept demo_world None demo_params m1 = (room, None, m1)"
    by (rule accept_idempotent) (simp_all add: demo_params_def accept_fields_def)
  ultimately show ?thesis by blast
qed

end
