(* ===== verification/Diagnostics.thy ===== *)
theory Diagnostics
  imports Relay Manager
begin

text \<open>
  What \<open>internal/call/manager.go\<close> logs about the media of a call: the counters (\<open>statsAttrs\<close>,
  \<open>logStats\<close>), Meta's RTCP feedback (\<open>observeRTCP\<close>) and the label of a call (\<open>callLabel\<close>). Log
  lines are values; \<open>diag_step\<close> interleaves any number of SRTCP readers of the transport, step by
  step, with inbound RTP and with the observer.
\<close>

section \<open>Definitions\<close>

text \<open>The first six bytes of the digest of the call id, in hexadecimal.\<close>

definition callLabel :: "(nat list \<Rightarrow> nat list) \<Rightarrow> string \<Rightarrow> string" where
  "callLabel sha256 cid = hex_encode (take 6 (sha256 (map of_char cid)))"

type_synonym attrs = "(string \<times> int) list"

definition statsAttrs :: "Stats \<Rightarrow> bridgeStats \<Rightarrow> attrs" where
  "statsAttrs ts bs =
     [(''rx_packets'', uint (st_RxPackets ts)), (''rx_lost'', st_RxLost ts), (''rx_reordered'', uint (st_RxReordered ts)),
      (''rx_dropped'', uint (st_RxDropped ts)), (''rx_jitter_ms'', go_trunc (fl64 (st_RxJitterMs ts + 1 / 2))),
      (''tx_packets'', uint (bs_TxPackets bs)), (''tx_not_ready_dropped'', uint (bs_TxDropped bs)),
      (''tx_write_errors'', uint (bs_TxWriteErrors bs))]"

datatype log_line =
    MediaStats attrs
  | ReceptionLine u32 u8 u32 u32      \<comment> \<open>SSRC, fraction lost, total lost, jitter\<close>
  | SenderLine u32

text \<open>\<open>logStats\<close>: one line for the state at every tick before the call ends.\<close>

definition logStats :: "(mediaPath \<times> bridge) list \<Rightarrow> log_line list" where
  "logStats ticks = map (\<lambda>(m, b). MediaStats (statsAttrs (mp_Stats m) (bridge_Stats b))) ticks"

text \<open>Which periodic goroutines \<open>connected\<close> starts besides the observer and the copy loop: the
  RTCP sender and the statistics.\<close>

definition connected_starts :: "mconfig \<Rightarrow> bool \<times> bool" where
  "connected_starts conf = (0 < mc_RTCPInterval conf, 0 < mc_StatsInterval conf)"

definition observe_packet :: "rtcp_packet \<Rightarrow> log_line list" where
  "observe_packet packet =
     (case packet of
        RReceiverReport ssrc blocks \<Rightarrow>
          map (\<lambda>block. ReceptionLine (rr_ssrc block) (rr_fractionLost block) (rr_totalLost block) (rr_jitter block)) blocks
      | RSenderReport report \<Rightarrow> [SenderLine (sr_ssrc report)]
      | _ \<Rightarrow> [])"

definition observe :: "rtcp_packet list \<Rightarrow> log_line list" where
  "observe packets = concat (map observe_packet packets)"

text \<open>One round of \<open>observeRTCP\<close>: \<open>None\<close> while the queue is empty.\<close>

definition observeRTCP :: "mediaPath \<Rightarrow> (log_line list \<times> mediaPath) option" where
  "observeRTCP m = (case mp_rtcpReports m of [] \<Rightarrow> None | packets # q \<Rightarrow> Some (observe packets, m\<lparr>mp_rtcpReports := q\<rparr>))"

section \<open>Readers and observer interleaved\<close>

text \<open>The media path and the readers of the SRTCP streams. As history: the decoded datagrams, the
  sender reports noted with their time, the datagrams that found room in the queue and those
  that did not, and the log.\<close>

record diag_sys =
  dg_m :: mediaPath
  dg_readers :: "drain list"
  dg_arrived :: "rtcp_packet list list"
  dg_noted :: "(u64 \<times> go_time) list"
  dg_queued :: "rtcp_packet list list"
  dg_lost :: "rtcp_packet list list"
  dg_log :: "log_line list"

definition diag_init :: "diag_sys \<Rightarrow> bool" where
  "diag_init s \<longleftrightarrow> (\<exists>timeout rnd. s = \<lparr>dg_m = newMediaPath timeout rnd, dg_readers = [], dg_arrived = [], dg_noted = [],
     dg_queued = [], dg_lost = [], dg_log = []\<rparr>)"

primrec drained :: "drain \<Rightarrow> rtcp_packet list list" where
  "drained Drain_read = []"
| "drained (Drain_note packets rest) = [packets]"

definition sender_report :: "go_time \<Rightarrow> rtcp_packet \<Rightarrow> (u64 \<times> go_time) list" where
  "sender_report now pkt = (case pkt of RSenderReport sr \<Rightarrow> [(sr_ntpTime sr, now)] | _ \<Rightarrow> [])"

definition room_left_for :: "diag_sys \<Rightarrow> bool" where
  "room_left_for s \<longleftrightarrow> length (mp_rtcpReports (dg_m s)) < rtcpQueueSize"

inductive diag_step :: "diag_sys \<Rightarrow> diag_sys \<Rightarrow> bool" where
  accept: "diag_step s (s\<lparr>dg_readers := dg_readers s @ [Drain_read]\<rparr>)"
| datagram: "i < length (dg_readers s) \<Longrightarrow> dg_readers s ! i = Drain_read \<Longrightarrow> drainSRTCP_recv unmarshal b = r \<Longrightarrow>
    diag_step s (s\<lparr>dg_readers := (dg_readers s)[i := r], dg_arrived := dg_arrived s @ drained r\<rparr>)"
| noted: "i < length (dg_readers s) \<Longrightarrow> dg_readers s ! i = Drain_note packets (pkt # rest) \<Longrightarrow>
    diag_step s (s\<lparr>dg_m := drainSRTCP_note now pkt (dg_m s), dg_readers := (dg_readers s)[i := Drain_note packets rest],
      dg_noted := dg_noted s @ sender_report now pkt\<rparr>)"
| offer: "i < length (dg_readers s) \<Longrightarrow> dg_readers s ! i = Drain_note packets [] \<Longrightarrow>
    diag_step s (s\<lparr>dg_m := drainSRTCP_offer packets (dg_m s), dg_readers := (dg_readers s)[i := Drain_read],
      dg_queued := dg_queued s @ (if room_left_for s then [packets] else []),
      dg_lost := dg_lost s @ (if room_left_for s then [] else [packets])\<rparr>)"
| rtp: "diag_step s (s\<lparr>dg_m := (dg_m s)\<lparr>mp_rx := rx_update p now (mp_rx (dg_m s))\<rparr>\<rparr>)"
| observed: "observeRTCP (dg_m s) = Some (ls, m) \<Longrightarrow> diag_step s (s\<lparr>dg_m := m, dg_log := dg_log s @ ls\<rparr>)"

text \<open>The log, the accounting of datagrams, and the sender report that the next reception report
  will echo.\<close>

definition log_inv :: "diag_sys \<Rightarrow> bool" where
  "log_inv s \<longleftrightarrow> dg_log s @ concat (map observe (mp_rtcpReports (dg_m s))) = concat (map observe (dg_queued s)) \<and>
     length (mp_rtcpReports (dg_m s)) \<le> rtcpQueueSize"

definition datagram_inv :: "diag_sys \<Rightarrow> bool" where
  "datagram_inv s \<longleftrightarrow>
     mset (dg_arrived s) = mset (dg_queued s) + mset (dg_lost s) + mset (concat (map drained (dg_readers s)))"

definition echo_inv :: "diag_sys \<Rightarrow> bool" where
  "echo_inv s \<longleftrightarrow> dg_noted s \<noteq> [] \<longrightarrow>
     rx_lastSR (mp_rx (dg_m s)) = ucast (drop_bit 16 (fst (last (dg_noted s)))) \<and> rx_lastSRAt (mp_rx (dg_m s)) = snd (last (dg_noted s))"

lemma rx_update_keeps_report: "rx_lastSR (rx_update p now s) = rx_lastSR s" "rx_lastSRAt (rx_update p now s) = rx_lastSRAt s"
  by (simp_all add: rx_update_def rx_sequence_def rx_interarrival_def Let_def)

lemma log_inv_step:
  assumes "diag_step s t" "log_inv s"
  shows "log_inv t"
  using assms(1)
proof (cases rule: diag_step.cases)
  case (noted i packets pkt rest now)
  then show ?thesis using assms(2) by (cases pkt) (simp_all add: log_inv_def drainSRTCP_note_def)
next
  case (offer i packets)
  then show ?thesis
    using assms(2) by (auto simp: log_inv_def drainSRTCP_offer_def enqueue_rtcp_def room_left_for_def simp flip: append_assoc)
next
  case (observed ls m)
  then show ?thesis using assms(2) by (auto simp: log_inv_def observeRTCP_def split: list.splits)
qed (use assms(2) in \<open>simp_all add: log_inv_def\<close>)

lemma datagram_inv_step:
  assumes "diag_step s t" "datagram_inv s"
  shows "datagram_inv t"
  using assms(1)
proof (cases rule: diag_step.cases)
  case (datagram i unmarshal b r)
  then show ?thesis using assms(2) mset_concat_update [OF datagram(2), of drained r] by (simp add: datagram_inv_def ac_simps)
next
  case (noted i packets pkt rest now)
  then show ?thesis using assms(2) mset_concat_update [OF noted(2), of drained "Drain_note packets rest"] by (simp add: datagram_inv_def)
next
  case (offer i packets)
  then show ?thesis using assms(2) mset_concat_update [OF offer(2), of drained Drain_read] by (simp add: datagram_inv_def ac_simps)
qed (use assms(2) in \<open>simp_all add: datagram_inv_def\<close>)

lemma echo_inv_step:
  assumes "diag_step s t" "echo_inv s"
  shows "echo_inv t"
  using assms(1)
proof (cases rule: diag_step.cases)
  case (noted i packets pkt rest now)
  then show ?thesis
    using assms(2) by (cases pkt) (simp_all add: echo_inv_def drainSRTCP_note_def sender_report_def rx_noteSenderReport_def)
next
  case (observed ls m)
  then show ?thesis using assms(2) by (auto simp: echo_inv_def observeRTCP_def split: list.splits)
qed (use assms(2) in \<open>simp_all add: echo_inv_def drainSRTCP_offer_def rx_update_keeps_report\<close>)

interpretation diag: safe_system diag_init diag_step "\<lambda>s. log_inv s \<and> datagram_inv s \<and> echo_inv s"
proof
  show "diag_init s \<Longrightarrow> log_inv s \<and> datagram_inv s \<and> echo_inv s" for s
    by (auto simp: diag_init_def log_inv_def datagram_inv_def echo_inv_def newMediaPath_def rtcpQueueSize_def)
  show "log_inv s \<and> datagram_inv s \<and> echo_inv s \<Longrightarrow> diag_step s t \<Longrightarrow> log_inv t \<and> datagram_inv t \<and> echo_inv t" for s t
    using log_inv_step datagram_inv_step echo_inv_step by blast
qed

section \<open>Properties\<close>

text \<open>
  Meta's feedback never disturbs the media path and is logged as far as the queue allows:
  whatever the interleaving of SRTCP readers, inbound RTP and observer, every decoded datagram
  is in the hands of its reader, was queued, or was lost; the lines logged so far followed by
  those of the queued datagrams are the lines of the datagrams that were queued, in the order
  of queueing; at most 32 wait; and the sender report to be echoed in the next reception report
  is the one noted last, whatever RTP has arrived since.
\<close>

lemma reports_accounted:
  assumes "reach diag_init diag_step s"
  shows "mset (dg_arrived s) = mset (dg_queued s) + mset (dg_lost s) + mset (concat (map drained (dg_readers s)))"
    "dg_log s @ concat (map observe (mp_rtcpReports (dg_m s))) = concat (map observe (dg_queued s))"
    "length (mp_rtcpReports (dg_m s)) \<le> 32"
    "dg_noted s \<noteq> [] \<Longrightarrow> rx_lastSR (mp_rx (dg_m s)) = ucast (drop_bit 16 (fst (last (dg_noted s))))"
  using diag.reach_inv [OF assms] by (simp_all add: log_inv_def datagram_inv_def echo_inv_def rtcpQueueSize_def)

text \<open>The line of a call's counters shows what the relay has really done.\<close>

lemma stats_line_true:
  assumes "reach (relay_init d) (relay_step d) s"
  shows "map_of (statsAttrs (mp_Stats (pu_m (rl_p s))) (bridge_Stats (rl_b s))) ''rx_dropped'' =
    Some (int (length (pu_dropped (rl_p s))) mod 2 ^ 64)"
proof -
  have "pump_inv (rl_p s)" using relay.reach_inv [OF assms] by (simp add: relay_inv_def)
  then have "mp_rxDropped (pu_m (rl_p s)) = word_of_int (int (length (pu_dropped (rl_p s))))" by (simp add: pump_inv_def)
  then show ?thesis
    by (simp add: statsAttrs_def mp_Stats_def Let_def uint_word_of_int del: of_int_of_nat_eq)
qed

text \<open>A label never shows more of the call id than twelve hexadecimal digits of its digest.\<close>

lemma callLabel_length: "(\<And>b. length (sha256 b) = 32) \<Longrightarrow> length (callLabel sha256 cid) = 12"
  by (simp add: callLabel_def hex_encode_length)

end
