(* ===== verification/Signalling.thy ===== *)
theory Signalling
  imports Call MetaClient
begin

text \<open>
  The requests a call sends to Meta: the goroutine of \<open>internal/call/manager.go\<close> (theory \<open>Call\<close>)
  composed with the API client of \<open>internal/meta/client.go\<close> (theory \<open>MetaClient\<close>). Where the
  theory \<open>Call\<close> lets the environment choose the result of \<open>PreAccept\<close>, \<open>Accept\<close> and \<open>Terminate\<close>,
  \<open>sig_step\<close> runs the client on the call's parameters, over a network that may behave
  differently in every exchange, and records the attempts.
\<close>

section \<open>State\<close>

text \<open>\<open>sg_token\<close>: the token read for the request in progress. As history: the tokens the call has
  held, all attempts in order, those of each of the three actions, and the call as it was when
  \<open>cleanup\<close> decided whether to terminate it.\<close>

record sig_sys =
  sg_s :: csys
  sg_token :: "string option"
  sg_tokens :: "string list"
  sg_log :: "attempt list"
  sg_pre :: "attempt list"
  sg_acc :: "attempt list"
  sg_term :: "attempt list"
  sg_decided :: "call option"

abbreviation params_of :: "csys \<Rightarrow> callParams" where "params_of s \<equiv> ca_params (cs_c s)"

definition sig_init :: "sig_sys \<Rightarrow> bool" where
  "sig_init s \<longleftrightarrow> call_init (sg_s s) \<and> sg_token s = None \<and> sg_tokens s = [cp_APIToken (params_of (sg_s s))] \<and>
     sg_log s = [] \<and> sg_pre s = [] \<and> sg_acc s = [] \<and> sg_term s = [] \<and> sg_decided s = None"

section \<open>The three requests of a call\<close>

definition run_PreAccept :: "network \<Rightarrow> client \<Rightarrow> string \<Rightarrow> call \<Rightarrow> string result \<times> attempt list" where
  "run_PreAccept net cl token c =
     meta_PreAccept net cl (cp_APIVersion (ca_params c)) (cp_PhoneID (ca_params c)) token (cp_CallID (ca_params c)) (ca_answer c)"

definition run_Accept :: "network \<Rightarrow> client \<Rightarrow> string \<Rightarrow> call \<Rightarrow> string result \<times> attempt list" where
  "run_Accept net cl token c =
     meta_Accept net cl (cp_APIVersion (ca_params c)) (cp_PhoneID (ca_params c)) token (cp_CallID (ca_params c)) (ca_answer c)"

text \<open>An error of \<open>Terminate\<close> is only logged.\<close>

definition cleanup_Terminate :: "network \<Rightarrow> client \<Rightarrow> string \<Rightarrow> bool \<Rightarrow> call \<Rightarrow> attempt list" where
  "cleanup_Terminate net cl token due c =
     (if due then snd (meta_Terminate net cl (cp_APIVersion (ca_params c)) (cp_PhoneID (ca_params c)) token (cp_CallID (ca_params c)))
      else [])"

text \<open>The goroutine after \<open>PreAccept\<close> and after \<open>Accept\<close>.\<close>

definition after_PreAccept :: "string result \<Rightarrow> csys \<Rightarrow> csys" where
  "after_PreAccept r s =
     (case r of
        Inl e \<Rightarrow> failed e s
      | Inr _ \<Rightarrow> s\<lparr>cs_c := (cs_c s)\<lparr>ca_signaled := True\<rparr>, cs_pc := P_media\<rparr>)"

definition after_Accept :: "string result \<Rightarrow> csys \<Rightarrow> csys" where
  "after_Accept r s = (case r of Inl e \<Rightarrow> failed e s | Inr _ \<Rightarrow> s\<lparr>cs_pc := P_connected\<rparr>)"

text \<open>Positions at which the goroutine is about to read the token or to send a request.\<close>

definition signals :: "call_pc \<Rightarrow> bool" where
  "signals pc = (case pc of P_preaccept \<Rightarrow> True | P_accept \<Rightarrow> True | P_decide \<Rightarrow> True | P_terminate b \<Rightarrow> True | _ \<Rightarrow> False)"

inductive sig_step :: "client \<Rightarrow> duration \<Rightarrow> sig_sys \<Rightarrow> sig_sys \<Rightarrow> bool" for cl d where
  capture: "cs_pc (sg_s s) \<in> {P_preaccept, P_accept} \<Longrightarrow> sg_token s = None \<Longrightarrow>
    sig_step cl d s (s\<lparr>sg_token := Some (cp_APIToken (params_of (sg_s s)))\<rparr>)"
| pre_accept: "cs_pc (sg_s s) = P_preaccept \<Longrightarrow> sg_token s = Some tok \<Longrightarrow> run_PreAccept net cl tok (cs_c (sg_s s)) = (r, as) \<Longrightarrow>
    sig_step cl d s (s\<lparr>sg_s := after_PreAccept r (sg_s s), sg_token := None, sg_log := sg_log s @ as, sg_pre := sg_pre s @ as\<rparr>)"
| accept: "cs_pc (sg_s s) = P_accept \<Longrightarrow> sg_token s = Some tok \<Longrightarrow> run_Accept net cl tok (cs_c (sg_s s)) = (r, as) \<Longrightarrow>
    sig_step cl d s (s\<lparr>sg_s := after_Accept r (sg_s s), sg_token := None, sg_log := sg_log s @ as, sg_acc := sg_acc s @ as\<rparr>)"
| decide: "cs_pc (sg_s s) = P_decide \<Longrightarrow>
    sig_step cl d s (s\<lparr>sg_s := (sg_s s)\<lparr>cs_pc := P_terminate (must_terminate (cs_c (sg_s s)))\<rparr>,
      sg_token := Some (cp_APIToken (params_of (sg_s s))), sg_decided := Some (cs_c (sg_s s))\<rparr>)"
| terminate: "cs_pc (sg_s s) = P_terminate b \<Longrightarrow> sg_token s = Some tok \<Longrightarrow> cleanup_Terminate net cl tok b (cs_c (sg_s s)) = as \<Longrightarrow>
    sig_step cl d s (s\<lparr>sg_s := (sg_s s)\<lparr>cs_terminates := cs_terminates (sg_s s) + (if b then 1 else 0), cs_pc := P_close\<rparr>,
      sg_token := None, sg_log := sg_log s @ as, sg_term := sg_term s @ as\<rparr>)"
| other: "\<not> signals (cs_pc (sg_s s)) \<Longrightarrow> run_step d (sg_s s) t \<Longrightarrow> sig_step cl d s (s\<lparr>sg_s := t\<rparr>)"
| request: "ext_step (sg_s s) t \<Longrightarrow> sig_step cl d s (s\<lparr>sg_s := t, sg_tokens := sg_tokens s @ [cp_APIToken (params_of t)]\<rparr>)"

text \<open>The composition refines the call: every step is a step of \<open>cstep\<close> or leaves the call alone.\<close>

lemma sig_refines:
  assumes "sig_step cl d s t"
  shows "(cstep d)\<^sup>*\<^sup>* (sg_s s) (sg_s t)"
  using assms
proof (cases rule: sig_step.cases)
  case (pre_accept tok net r as)
  have "run_step d (sg_s s) (after_PreAccept r (sg_s s))"
    using pre_accept(2) run_step.step_failed [of "sg_s s" d] run_step.preaccept_ok [of "sg_s s" d]
    by (simp add: after_PreAccept_def split: sum.splits)
  with pre_accept show ?thesis by (auto simp: cstep_def)
next
  case (accept tok net r as)
  have "run_step d (sg_s s) (after_Accept r (sg_s s))"
    using accept(2) run_step.step_failed [of "sg_s s" d] run_step.accept_ok [of "sg_s s" d]
    by (simp add: after_Accept_def split: sum.splits)
  with accept show ?thesis by (auto simp: cstep_def)
next
  case decide
  then show ?thesis using run_step.decide [of "sg_s s" d] by (auto simp: cstep_def)
next
  case (terminate b tok net as)
  then show ?thesis using run_step.terminate [of "sg_s s" b d] by (auto simp: cstep_def)
qed (auto simp: cstep_def)

section \<open>Invariant\<close>

text \<open>What an attempt may have sent: the given body under a token of the call.\<close>

definition carries :: "string set \<Rightarrow> callRequest \<Rightarrow> attempt \<Rightarrow> bool" where
  "carries toks body a \<longleftrightarrow> (case snd a of None \<Rightarrow> True
     | Some req \<Rightarrow> hr_method req = ''POST'' \<and> hr_body req = body \<and>
         (\<exists>tok \<in> toks. hr_headers req = [(''Authorization'', ''Bearer '' @ tok), (''Content-Type'', ''application/json'')]))"

definition answer_body :: "string \<Rightarrow> call \<Rightarrow> callRequest" where
  "answer_body action c = \<lparr>cr_MessagingProduct = ''whatsapp'', cr_CallID = cp_CallID (ca_params c), cr_To = [], cr_Action = action,
     cr_Session = Some \<lparr>se_SDPType = ''answer'', se_SDP = ca_answer c\<rparr>, cr_Opaque = []\<rparr>"

definition ending_body :: "call \<Rightarrow> callRequest" where
  "ending_body c = \<lparr>cr_MessagingProduct = ''whatsapp'', cr_CallID = cp_CallID (ca_params c), cr_To = [], cr_Action = ''terminate'',
     cr_Session = None, cr_Opaque = []\<rparr>"

definition succeeded :: "attempt list \<Rightarrow> bool" where
  "succeeded as \<longleftrightarrow> as \<noteq> [] \<and> (\<exists>out. fst (last as) = Inr out)"

definition sent_inv :: "sig_sys \<Rightarrow> bool" where
  "sent_inv s \<longleftrightarrow> (let c = cs_c (sg_s s); toks = set (sg_tokens s) in
     cp_APIToken (ca_params c) \<in> toks \<and> (\<forall>tok. sg_token s = Some tok \<longrightarrow> tok \<in> toks) \<and>
     list_all (carries toks (answer_body ''pre_accept'' c)) (sg_pre s) \<and>
     list_all (carries toks (answer_body ''accept'' c)) (sg_acc s) \<and>
     list_all (carries toks (ending_body c)) (sg_term s))"

definition order_of_inv :: "sig_sys \<Rightarrow> bool" where
  "order_of_inv s \<longleftrightarrow> (let c = cs_c (sg_s s); pc = cs_pc (sg_s s) in
     sg_log s = sg_pre s @ sg_acc s @ sg_term s \<and>
     length (sg_pre s) \<le> 3 \<and> length (sg_acc s) \<le> 3 \<and> length (sg_term s) \<le> 3 \<and>
     (12 \<le> prank pc \<longrightarrow> sg_pre s = []) \<and> (10 \<le> prank pc \<longrightarrow> sg_acc s = []) \<and> (5 \<le> prank pc \<longrightarrow> sg_term s = []) \<and>
     (pc = P_preaccept \<or> pc = P_accept \<longrightarrow> \<not> ca_outbound c) \<and>
     (ca_outbound c \<longrightarrow> ca_signaled c \<and> sg_pre s = [] \<and> sg_acc s = []) \<and> (\<forall>b. pc = P_terminate b \<longrightarrow> sg_token s \<noteq> None) \<and>
     (\<not> ca_outbound c \<longrightarrow> (ca_signaled c \<longleftrightarrow> succeeded (sg_pre s)) \<and>
        (prank pc \<in> {8, 9, 10, 11} \<longrightarrow> ca_signaled c) \<and> (sg_acc s \<noteq> [] \<longrightarrow> ca_signaled c) \<and>
        (prank pc \<in> {8, 9} \<or> cs_connected (sg_s s) \<longrightarrow> succeeded (sg_acc s)) \<and> pc \<noteq> P_answer) \<and>
     (sg_term s \<noteq> [] \<longleftrightarrow> cs_terminates (sg_s s) = 1))"

text \<open>The decision of \<open>cleanup\<close>, and that it was carried out.\<close>

definition decision_inv :: "sig_sys \<Rightarrow> bool" where
  "decision_inv s \<longleftrightarrow>
     (case sg_decided s of
        None \<Rightarrow> 6 \<le> prank (cs_pc (sg_s s)) \<and> sg_term s = []
      | Some c \<Rightarrow> prank (cs_pc (sg_s s)) \<le> 5 \<and> ca_signaled c = ca_signaled (cs_c (sg_s s)) \<and>
          (must_terminate c \<longleftrightarrow> ca_signaled c \<and> \<not> ca_userTerminated c) \<and>
          (\<forall>b. cs_pc (sg_s s) = P_terminate b \<longrightarrow> b = must_terminate c \<and> sg_term s = []) \<and>
          (prank (cs_pc (sg_s s)) \<le> 4 \<longrightarrow> (sg_term s \<noteq> [] \<longleftrightarrow> must_terminate c)))"

text \<open>The attempts of one action.\<close>

lemma attempts:
  assumes "meta_call net cl policy v ph tok body = (r, as)"
  shows "list_all (carries {tok} body) as \<and> as \<noteq> [] \<and> length as \<le> 3 \<and> r = fst (last as)"
proof -
  have "list_all (carries {tok} body) as"
    using assms meta_call_sent [of _ net cl policy v ph tok body] by (fastforce simp: list_all_iff carries_def split: option.splits)
  with assms meta_call_contract(1,2) [of net cl policy v ph tok body] show ?thesis by (auto simp: maxAttempts_def)
qed

lemma PreAccept_attempts:
  "run_PreAccept net cl tok c = (r, as) \<Longrightarrow>
   list_all (carries {tok} (answer_body ''pre_accept'' c)) as \<and> as \<noteq> [] \<and> length as \<le> 3 \<and> r = fst (last as)"
  unfolding run_PreAccept_def meta_PreAccept_def answer_body_def by (rule attempts)

lemma Accept_attempts:
  "run_Accept net cl tok c = (r, as) \<Longrightarrow>
   list_all (carries {tok} (answer_body ''accept'' c)) as \<and> as \<noteq> [] \<and> length as \<le> 3 \<and> r = fst (last as)"
  unfolding run_Accept_def meta_Accept_def answer_body_def by (rule attempts)

lemma Terminate_attempts:
  assumes "cleanup_Terminate net cl tok b c = as"
  shows "list_all (carries {tok} (ending_body c)) as \<and> (as \<noteq> [] \<longleftrightarrow> b) \<and> length as \<le> 3"
proof (cases b)
  case True
  then obtain r where "meta_Terminate net cl (cp_APIVersion (ca_params c)) (cp_PhoneID (ca_params c)) tok (cp_CallID (ca_params c)) = (r, as)"
    using assms by (cases "meta_Terminate net cl (cp_APIVersion (ca_params c)) (cp_PhoneID (ca_params c)) tok (cp_CallID (ca_params c))")
      (simp add: cleanup_Terminate_def)
  with True show ?thesis unfolding meta_Terminate_def ending_body_def using attempts by blast
qed (use assms in \<open>simp add: cleanup_Terminate_def\<close>)

text \<open>Steps leave what identifies the call alone, and only \<open>Disconnect\<close> touches the token.\<close>

lemma run_step_keeps:
  "run_step d s t \<Longrightarrow> ca_params (cs_c t) = ca_params (cs_c s) \<and> ca_answer (cs_c t) = ca_answer (cs_c s) \<and>
   ca_outbound (cs_c t) = ca_outbound (cs_c s)"
  by (erule run_step.cases; (elim awaitEnd_cases)?; simp add: call_op_defs)

lemma ext_step_keeps:
  "ext_step s t \<Longrightarrow> cp_CallID (params_of t) = cp_CallID (params_of s) \<and> ca_answer (cs_c t) = ca_answer (cs_c s) \<and>
   ca_outbound (cs_c t) = ca_outbound (cs_c s) \<and> ca_signaled (cs_c t) = ca_signaled (cs_c s) \<and>
   cs_pc t = cs_pc s \<and> cs_connected t = cs_connected s \<and> cs_terminates t = cs_terminates s"
  by (erule ext_step.cases; (elim call_Connect_cases)?; simp add: call_op_defs)

lemma carries_mono:
  assumes "list_all (carries T body) as" "T \<subseteq> T'"
  shows "list_all (carries T' body) as"
proof -
  have "carries T body a \<Longrightarrow> carries T' body a" for a
    using assms(2) by (cases "snd a") (auto simp: carries_def)
  with assms(1) show ?thesis by (auto simp: list_all_iff)
qed

lemma bodies_cong:
  "cp_CallID (ca_params c') = cp_CallID (ca_params c) \<Longrightarrow> ca_answer c' = ca_answer c \<Longrightarrow> answer_body action c' = answer_body action c"
  "cp_CallID (ca_params c') = cp_CallID (ca_params c) \<Longrightarrow> ending_body c' = ending_body c"
  by (simp_all add: answer_body_def ending_body_def)

lemma after_keeps [simp]:
  "ca_params (cs_c (after_PreAccept r s)) = ca_params (cs_c s)" "ca_answer (cs_c (after_PreAccept r s)) = ca_answer (cs_c s)"
  "ca_params (cs_c (after_Accept r s)) = ca_params (cs_c s)" "ca_answer (cs_c (after_Accept r s)) = ca_answer (cs_c s)"
  "ca_outbound (cs_c (after_PreAccept r s)) = ca_outbound (cs_c s)" "ca_outbound (cs_c (after_Accept r s)) = ca_outbound (cs_c s)"
  by (simp_all add: after_PreAccept_def after_Accept_def call_op_defs split: sum.splits)

lemma after_bodies [simp]:
  "answer_body action (cs_c (after_PreAccept r s)) = answer_body action (cs_c s)"
  "ending_body (cs_c (after_PreAccept r s)) = ending_body (cs_c s)"
  "answer_body action (cs_c (after_Accept r s)) = answer_body action (cs_c s)"
  "ending_body (cs_c (after_Accept r s)) = ending_body (cs_c s)"
  by (simp_all add: answer_body_def ending_body_def)

lemma sent_inv_step:
  assumes "sig_step cl d s t" "sent_inv s"
  shows "sent_inv t"
  using assms(1)
proof (cases rule: sig_step.cases)
  case (pre_accept tok net r as)
  with assms(2) carries_mono [of "{tok}" _ as "set (sg_tokens s)"] PreAccept_attempts [OF pre_accept(4)] show ?thesis
    by (auto simp: sent_inv_def Let_def)
next
  case (accept tok net r as)
  with assms(2) carries_mono [of "{tok}" _ as "set (sg_tokens s)"] Accept_attempts [OF accept(4)] show ?thesis
    by (auto simp: sent_inv_def Let_def)
next
  case (terminate b tok net as)
  with assms(2) carries_mono [of "{tok}" _ as "set (sg_tokens s)"] Terminate_attempts [OF terminate(4)] show ?thesis
    by (auto simp: sent_inv_def Let_def)
next
  case (other u)
  note k = run_step_keeps [OF other(3)]
  with assms(2) other(1) bodies_cong [of "cs_c u" "cs_c (sg_s s)"] show ?thesis by (auto simp: sent_inv_def Let_def)
next
  case (request u)
  note k = ext_step_keeps [OF request(2)]
  have "set (sg_tokens s) \<subseteq> set (sg_tokens t)" using request(1) by auto
  note carries_mono [OF _ this]
  with k assms(2) request(1) bodies_cong [of "cs_c u" "cs_c (sg_s s)"] show ?thesis by (auto simp: sent_inv_def Let_def)
qed (use assms(2) in \<open>auto simp: sent_inv_def Let_def\<close>)

lemma stop_keeps [simp]:
  "ca_outbound (stopBusiness c) = ca_outbound c" "ca_signaled (stopBusiness c) = ca_signaled c"
  "ca_outbound (fail e c) = ca_outbound c" "ca_signaled (fail e c) = ca_signaled c"
  "ca_outbound (signalReady x c) = ca_outbound c" "ca_signaled (signalReady x c) = ca_signaled c"
  by (simp_all add: call_op_defs)

lemma order_of_other:
  "run_step d (sg_s s) u \<Longrightarrow> \<not> signals (cs_pc (sg_s s)) \<Longrightarrow> order_of_inv s \<Longrightarrow> order_of_inv (s\<lparr>sg_s := u\<rparr>)"
  by (erule run_step.cases; (elim awaitEnd_cases insertE emptyE)?; hypsubst?; (simp add: signals_def)?;
      simp add: order_of_inv_def Let_def failed_def succeeded_def; (elim conjE)?; simp?; blast?)

lemma order_of_step:
  assumes "sig_step cl d s t" "order_of_inv s" "call_inv (sg_s s)"
  shows "order_of_inv t"
  using assms(1)
proof (cases rule: sig_step.cases)
  case (pre_accept tok net r as)
  with assms(2) PreAccept_attempts [OF pre_accept(4)] show ?thesis
    by (auto simp: order_of_inv_def Let_def after_PreAccept_def succeeded_def call_op_defs split: sum.splits)
next
  case (accept tok net r as)
  with assms(2) Accept_attempts [OF accept(4)] show ?thesis
    by (auto simp: order_of_inv_def Let_def after_Accept_def succeeded_def call_op_defs split: sum.splits)
next
  case (terminate b tok net as)
  with assms(2,3) Terminate_attempts [OF terminate(4)] show ?thesis
    by (auto simp: order_of_inv_def Let_def call_inv_def term_inv_def)
next
  case (other u)
  then show ?thesis using order_of_other [OF other(3,2) assms(2)] by simp
next
  case (request u)
  have "order_of_inv t = order_of_inv s"
    using ext_step_keeps [OF request(2)] by (simp add: request(1) order_of_inv_def Let_def)
  with assms(2) show ?thesis by simp
qed (use assms(2) in \<open>auto simp: order_of_inv_def Let_def\<close>)

text \<open>Before the decision the goroutine does not leave \<open>P_decide\<close>, after it only \<open>terminate\<close> leaves
  \<open>P_terminate\<close>; the other steps of the goroutine do not change what the decision rests on.\<close>

lemma decision_other:
  "run_step d (sg_s s) u \<Longrightarrow> \<not> signals (cs_pc (sg_s s)) \<Longrightarrow> decision_inv s \<Longrightarrow> decision_inv (s\<lparr>sg_s := u\<rparr>)"
  by (erule run_step.cases; (elim awaitEnd_cases insertE emptyE)?; hypsubst?; (simp add: signals_def)?;
      simp add: decision_inv_def failed_def split: option.splits)

lemma decision_step:
  assumes "sig_step cl d s t" "decision_inv s" "call_inv (sg_s s)"
  shows "decision_inv t"
  using assms(1)
proof (cases rule: sig_step.cases)
  case (pre_accept tok net r as)
  with assms(2) show ?thesis
    by (auto simp: decision_inv_def after_PreAccept_def call_op_defs split: sum.splits option.splits)
next
  case (accept tok net r as)
  with assms(2) show ?thesis
    by (auto simp: decision_inv_def after_Accept_def call_op_defs split: sum.splits option.splits)
next
  case decide
  with assms(3) have "must_terminate (cs_c (sg_s s)) \<longleftrightarrow> ca_signaled (cs_c (sg_s s)) \<and> \<not> ca_userTerminated (cs_c (sg_s s))"
    by (auto simp: call_inv_def flag_inv_def must_terminate_def Let_def)
  with decide assms(2) show ?thesis by (auto simp: decision_inv_def split: option.splits)
next
  case (terminate b tok net as)
  with assms(2) Terminate_attempts [OF terminate(4)] show ?thesis by (auto simp: decision_inv_def split: option.splits)
next
  case (other u)
  then show ?thesis using decision_other [OF other(3,2) assms(2)] by simp
next
  case (request u)
  have "decision_inv t = decision_inv s"
    using ext_step_keeps [OF request(2)] by (simp add: request(1) decision_inv_def split: option.splits)
  with assms(2) show ?thesis by simp
qed (use assms(2) in \<open>auto simp: decision_inv_def split: option.splits\<close>)

definition sig_inv :: "sig_sys \<Rightarrow> bool" where
  "sig_inv s \<longleftrightarrow> call_inv (sg_s s) \<and> sent_inv s \<and> order_of_inv s \<and> decision_inv s"

interpretation signalling: safe_system sig_init "sig_step cl d" sig_inv
proof
  show "sig_inv s" if "sig_init s" for s
  proof -
    have "call_init (sg_s s)" using that by (simp add: sig_init_def)
    then have "cs_pc (sg_s s) = P_bridge" "ca_outbound (cs_c (sg_s s)) = ca_signaled (cs_c (sg_s s))"
        "\<not> cs_connected (sg_s s)" "cs_terminates (sg_s s) = 0"
      by (auto simp: call_init_def start_call_def new_inbound_def new_outbound_def)
    with that show ?thesis
      by (simp add: call_inv_init sig_init_def sig_inv_def sent_inv_def order_of_inv_def decision_inv_def Let_def succeeded_def)
  qed
  show "sig_inv t" if "sig_inv s" "sig_step cl d s t" for s t
    using that a_call.steps_inv [OF sig_refines [OF that(2)]] sent_inv_step [OF that(2)] order_of_step [OF that(2)]
      decision_step [OF that(2)]
    by (simp add: sig_inv_def)
qed

text \<open>The composition does not get stuck either: unless the call is up and nothing ends it, some
  step of the goroutine, such as some exchange, is possible.\<close>

lemma sig_enabled:
  assumes "sig_inv s" "3 < prank (cs_pc (sg_s s))" "cs_pc (sg_s s) = P_talk \<Longrightarrow> end_due d (sg_s s)"
  shows "\<exists>t. sig_step cl d s t"
proof (cases "signals (cs_pc (sg_s s))")
  case False
  then show ?thesis using run_step_enabled [OF assms(2)] assms(3) sig_step.other by blast
next
  case True
  have pre: "\<exists>t. sig_step cl d s t" if "cs_pc (sg_s s) \<in> {P_preaccept, P_accept}" "sg_token s = Some tok" for tok
    using that sig_step.pre_accept [OF _ that(2) prod.collapse [symmetric]] sig_step.accept [OF _ that(2) prod.collapse [symmetric]] by blast
  have ter: "\<exists>t. sig_step cl d s t" if "cs_pc (sg_s s) = P_terminate b" for b
  proof -
    have "sg_token s \<noteq> None" using assms(1) that by (simp add: sig_inv_def order_of_inv_def Let_def)
    then show ?thesis using that sig_step.terminate [OF that _ refl] by blast
  qed
  from True pre ter show ?thesis
    by (cases "sg_token s") (auto simp: signals_def intro: sig_step.capture sig_step.decide split: call_pc.splits)
qed

section \<open>Properties\<close>

text \<open>An outbound call that Meta was told about when it was dialled, whose room could not be joined and
  which is then terminated.\<close>

definition demo_sig :: "csys \<Rightarrow> string option \<Rightarrow> attempt list \<Rightarrow> call option \<Rightarrow> sig_sys" where
  "demo_sig s tok as dec =
     \<lparr>sg_s = s, sg_token = tok, sg_tokens = [''t''], sg_log = as, sg_pre = [], sg_acc = [], sg_term = as, sg_decided = dec\<rparr>"

lemma demo_sig_reach:
  assumes "c0 = new_outbound demo_params n" "c = signalReady (Some ErrCanceled) (fail ErrEOF c0)"
    "cleanup_Terminate net cl ''t'' True c = as"
  shows "reach sig_init (sig_step cl d) (demo_sig ((dsys c P_close)\<lparr>cs_terminates := 1\<rparr>) None as (Some c))"
proof -
  let ?s1 = "dsys (fail ErrEOF c0) P_cleanup"
  have tok: "cp_APIToken (ca_params c0) = ''t''" "cp_APIToken (ca_params c) = ''t''"
    using assms by (simp_all add: new_outbound_def demo_params_def call_op_defs)
  have due: "must_terminate c" using assms by (simp add: new_outbound_def call_op_defs)
  have "reach sig_init (sig_step cl d) (demo_sig (start_call c0) None [] None)"
    by (rule reach_init) (use assms(1) tok in \<open>auto simp: sig_init_def demo_sig_def call_init_def start_call_def\<close>)
  moreover have "run_step d (start_call c0) ?s1"
    using run_step.step_failed [of "start_call c0" d ErrEOF] by (simp add: start_call_def failed_def)
  then have "sig_step cl d (demo_sig (start_call c0) None [] None) (demo_sig ?s1 None [] None)"
    using sig_step.other [of "demo_sig (start_call c0) None [] None" d ?s1 cl] by (simp add: demo_sig_def signals_def start_call_def)
  ultimately have "reach sig_init (sig_step cl d) (demo_sig ?s1 None [] None)" by (rule reach_step)
  moreover have "run_step d ?s1 (dsys c P_decide)"
    using run_step.cleanup_ready [of ?s1 d] assms(2) by (simp add: start_call_def)
  then have "sig_step cl d (demo_sig ?s1 None [] None) (demo_sig (dsys c P_decide) None [] None)"
    using sig_step.other [of "demo_sig ?s1 None [] None" d "dsys c P_decide" cl] by (simp add: demo_sig_def signals_def start_call_def)
  ultimately have "reach sig_init (sig_step cl d) (demo_sig (dsys c P_decide) None [] None)" by (rule reach_step)
  moreover have "sig_step cl d (demo_sig (dsys c P_decide) None [] None) (demo_sig (dsys c (P_terminate True)) (Some ''t'') [] (Some c))"
    using sig_step.decide [of "demo_sig (dsys c P_decide) None [] None" cl d] tok(2) due by (simp add: demo_sig_def start_call_def)
  ultimately have "reach sig_init (sig_step cl d) (demo_sig (dsys c (P_terminate True)) (Some ''t'') [] (Some c))" by (rule reach_step)
  moreover have "sig_step cl d (demo_sig (dsys c (P_terminate True)) (Some ''t'') [] (Some c))
      (demo_sig ((dsys c P_close)\<lparr>cs_terminates := 1\<rparr>) None as (Some c))"
    using sig_step.terminate [of "demo_sig (dsys c (P_terminate True)) (Some ''t'') [] (Some c)" True "''t''" net cl as d] assms(3)
    by (simp add: demo_sig_def start_call_def)
  ultimately show ?thesis by (rule reach_step)
qed

text \<open>
  C12: Every call speaks to Meta in order and in its own name: whatever the network does and
  however requests interleave, the exchanges of a call are attempts of \<open>pre_accept\<close>, then of
  \<open>accept\<close>, then of \<open>terminate\<close>, at most three of each; each carries the id of this call, its own
  SDP answer where one is due, and a token the call has held. \<open>accept\<close> is only sent after
  \<open>pre_accept\<close> succeeded, and an inbound call counts as connected only after \<open>accept\<close> succeeded.
  \<open>terminate\<close> is sent exactly for the calls that were dialled or pre-accepted and that the user
  had not hung up when \<open>cleanup\<close> decided: never for another one, and by the time such a call is
  removed it has been sent. (A hang-up that comes after the decision comes too late.)
\<close>

theorem signalling_in_order:
  assumes "reach sig_init (sig_step cl d) s"
  shows "sg_log s = sg_pre s @ sg_acc s @ sg_term s \<and>
    length (sg_pre s) \<le> 3 \<and> length (sg_acc s) \<le> 3 \<and> length (sg_term s) \<le> 3 \<and>
    list_all (carries (set (sg_tokens s)) (answer_body ''pre_accept'' (cs_c (sg_s s)))) (sg_pre s) \<and>
    list_all (carries (set (sg_tokens s)) (answer_body ''accept'' (cs_c (sg_s s)))) (sg_acc s) \<and>
    list_all (carries (set (sg_tokens s)) (ending_body (cs_c (sg_s s)))) (sg_term s) \<and>
    (sg_acc s \<noteq> [] \<longrightarrow> succeeded (sg_pre s)) \<and>
    (\<not> ca_outbound (cs_c (sg_s s)) \<and> cs_connected (sg_s s) \<longrightarrow> succeeded (sg_acc s)) \<and>
    (sg_term s \<noteq> [] \<longrightarrow> ca_outbound (cs_c (sg_s s)) \<or> succeeded (sg_pre s)) \<and>
    (sg_term s \<noteq> [] \<longrightarrow> (\<exists>c. sg_decided s = Some c \<and> \<not> ca_userTerminated c)) \<and>
    (cs_pc (sg_s s) = P_delete \<longrightarrow> (\<exists>c. sg_decided s = Some c \<and>
       (sg_term s \<noteq> [] \<longleftrightarrow> \<not> ca_userTerminated c \<and> (ca_outbound (cs_c (sg_s s)) \<or> succeeded (sg_pre s)))))"
proof -
  have inv: "call_inv (sg_s s)" "sent_inv s" "order_of_inv s" "decision_inv s"
    using signalling.reach_inv [OF assms] by (simp_all add: sig_inv_def)
  have ord: "sg_log s = sg_pre s @ sg_acc s @ sg_term s" "length (sg_pre s) \<le> 3" "length (sg_acc s) \<le> 3" "length (sg_term s) \<le> 3"
    "ca_signaled (cs_c (sg_s s)) \<longleftrightarrow> ca_outbound (cs_c (sg_s s)) \<or> succeeded (sg_pre s)"
    "sg_acc s \<noteq> [] \<longrightarrow> succeeded (sg_pre s)" "\<not> ca_outbound (cs_c (sg_s s)) \<and> cs_connected (sg_s s) \<longrightarrow> succeeded (sg_acc s)"
    "sg_term s \<noteq> [] \<longleftrightarrow> cs_terminates (sg_s s) = 1"
    using inv(3) by (cases "ca_outbound (cs_c (sg_s s))"; simp add: order_of_inv_def Let_def)+
  moreover have "cs_terminates (sg_s s) = 1 \<longrightarrow> ca_signaled (cs_c (sg_s s))"
    using inv(1) by (auto simp: call_inv_def term_inv_def Let_def)
  moreover have "sg_term s \<noteq> [] \<longrightarrow> (\<exists>c. sg_decided s = Some c \<and> \<not> ca_userTerminated c)"
    using inv(3,4) by (cases "cs_pc (sg_s s)") (auto simp: decision_inv_def order_of_inv_def Let_def split: option.splits)
  moreover have "cs_pc (sg_s s) = P_delete \<longrightarrow> (\<exists>c. sg_decided s = Some c \<and>
       (sg_term s \<noteq> [] \<longleftrightarrow> \<not> ca_userTerminated c \<and> ca_signaled (cs_c (sg_s s))))"
    using inv(4) by (auto simp: decision_inv_def split: option.splits)
  ultimately show ?thesis using inv(2) by (simp add: sent_inv_def Let_def)
qed

theorem signalling_in_order_witness:
  "\<exists>s. reach sig_init (sig_step New 0) s \<and> sg_term s \<noteq> [] \<and> length (sg_term s) \<le> 3 \<and>
     (\<exists>c. sg_decided s = Some c \<and> \<not> ca_userTerminated c)"
proof -
  let ?c = "signalReady (Some ErrCanceled) (fail ErrEOF (new_outbound demo_params (demo_local ''actpass'' False)))"
  obtain as where as: "cleanup_Terminate (answering [503]) New ''t'' True ?c = as" by blast
  note reach = demo_sig_reach [OF refl refl as, of 0]
  have "sg_term (demo_sig ((dsys ?c P_close)\<lparr>cs_terminates := 1\<rparr>) None as (Some ?c)) \<noteq> []"
    using Terminate_attempts [OF as] by (simp add: demo_sig_def)
  with reach signalling_in_order [OF reach] show ?thesis by blast
qed

end
