(* ===== verification/Config.thy ===== *)
theory Config
  imports GoFloat Ports
begin

text \<open>
  \<open>internal/config/config.go\<close>: the configuration read from the environment. The process
  environment is the argument \<open>getenv\<close> (\<open>os.Getenv\<close> gives the empty string for a variable
  that is not set). A configuration that loads satisfies \<open>config_ok\<close>, in particular its
  port range is one the allocator of the theory \<open>Ports\<close> can use.
\<close>

record config =
  c_HTTPAddr :: string
  c_LiveKitURL :: string
  c_LiveKitAPIKey :: string
  c_LiveKitSecret :: string
  c_PublicIP :: ipv4
  c_PortMin :: int
  c_PortMax :: int
  c_SetupTimeout :: duration
  c_MediaTimeout :: duration
  c_MaxCallDuration :: duration
  c_RTCPInterval :: duration
  c_StatsInterval :: duration
  c_ShutdownWindow :: duration

type_synonym environment = "string \<Rightarrow> string"

definition env :: "environment \<Rightarrow> string \<Rightarrow> string \<Rightarrow> string" where
  "env getenv k d = (if getenv k \<noteq> [] then getenv k else d)"

definition envInt :: "environment \<Rightarrow> string \<Rightarrow> int \<Rightarrow> int" where
  "envInt getenv k d = (case atoi (getenv k) of Some v \<Rightarrow> if v \<noteq> 0 then v else d | None \<Rightarrow> d)"

definition envDuration :: "environment \<Rightarrow> string \<Rightarrow> duration \<Rightarrow> duration" where
  "envDuration getenv k d = (case parse_duration (getenv k) of Some v \<Rightarrow> if 0 < v then v else d | None \<Rightarrow> d)"

definition envDurationOrOff :: "environment \<Rightarrow> string \<Rightarrow> duration \<Rightarrow> duration" where
  "envDurationOrOff getenv k d =
     (if getenv k \<in> {''0'', ''off'', ''false''} then 0 else envDuration getenv k d)"

definition Load :: "environment \<Rightarrow> config result" where
  "Load getenv =
     (let key = getenv ''LIVEKIT_API_KEY''; secret = getenv ''LIVEKIT_API_SECRET'';
          portMin = envInt getenv ''MEDIA_PORT_MIN'' 40000;
          portMax = envInt getenv ''MEDIA_PORT_MAX'' 49999
      in case parse_addr4 (getenv ''PUBLIC_IP'') of
           None \<Rightarrow> Inl (ErrText ''PUBLIC_IP must be a valid IPv4 address'')
         | Some ip \<Rightarrow>
             if key = [] \<or> secret = []
             then Inl (ErrText ''LIVEKIT_API_KEY and LIVEKIT_API_SECRET are required'')
             else if portMin < 1024 \<or> 65535 < portMax \<or> portMax < portMin
             then Inl (ErrText (''invalid media port range '' @ itoa portMin @ ''-'' @ itoa portMax))
             else Inr
               \<lparr>c_HTTPAddr = env getenv ''HTTP_ADDR'' ''127.0.0.1:8090'',
                c_LiveKitURL = env getenv ''LIVEKIT_URL'' ''ws://127.0.0.1:7880'',
                c_LiveKitAPIKey = key, c_LiveKitSecret = secret, c_PublicIP = ip,
                c_PortMin = portMin, c_PortMax = portMax,
                c_SetupTimeout = envDuration getenv ''SETUP_TIMEOUT'' (30 * second),
                c_MediaTimeout = envDuration getenv ''MEDIA_TIMEOUT'' (20 * second),
                c_MaxCallDuration = envDuration getenv ''MAX_CALL_DURATION'' (2 * hour),
                c_RTCPInterval = envDurationOrOff getenv ''RTCP_INTERVAL'' (2 * second),
                c_StatsInterval = envDurationOrOff getenv ''STATS_INTERVAL'' (15 * second),
                c_ShutdownWindow = envDuration getenv ''SHUTDOWN_TIMEOUT'' (15 * second)\<rparr>)"

section \<open>Well-formed configurations\<close>

definition config_ok :: "config \<Rightarrow> bool" where
  "config_ok c \<longleftrightarrow>
     c_LiveKitAPIKey c \<noteq> [] \<and> c_LiveKitSecret c \<noteq> [] \<and> c_HTTPAddr c \<noteq> [] \<and> c_LiveKitURL c \<noteq> [] \<and>
     1024 \<le> c_PortMin c \<and> c_PortMin c \<le> c_PortMax c \<and> c_PortMax c \<le> 65535 \<and>
     0 < c_SetupTimeout c \<and> 0 < c_MediaTimeout c \<and> 0 < c_MaxCallDuration c \<and>
     0 \<le> c_RTCPInterval c \<and> 0 \<le> c_StatsInterval c \<and> 0 < c_ShutdownWindow c"

lemma envDuration_pos: "0 < d \<Longrightarrow> 0 < envDuration getenv k d"
  by (simp add: envDuration_def split: option.splits)

lemma envDurationOrOff_nonneg: "0 < d \<Longrightarrow> 0 \<le> envDurationOrOff getenv k d"
  using envDuration_pos [of d getenv k] by (simp add: envDurationOrOff_def)

lemma env_nonempty: "d \<noteq> [] \<Longrightarrow> env getenv k d \<noteq> []"
  by (simp add: env_def)

lemma parse_duration_empty [simp]: "parse_duration [] = None"
  by (simp add: parse_duration_def)

lemma atoi_empty [simp]: "atoi [] = None"
  by (simp add: atoi_def)

lemma config_loads_ok: "Load getenv = Inr c \<Longrightarrow> config_ok c"
  by (auto simp: Load_def Let_def config_ok_def envDuration_pos envDurationOrOff_nonneg env_nonempty
      split: option.splits if_splits)

text \<open>
  C40: \<open>Load\<close> succeeds exactly when \<open>PUBLIC_IP\<close> is an IPv4 address, both LiveKit
  credentials are set and the port range (after defaults) lies in 1024 to 65535 and is not
  empty; what it returns is well-formed: non-empty addresses and credentials, a usable port
  range, strictly positive timeouts and call cap, non-negative report intervals.
\<close>

theorem Load_ok:
  "((\<exists>c. Load getenv = Inr c) \<longleftrightarrow>
      parse_addr4 (getenv ''PUBLIC_IP'') \<noteq> None \<and> getenv ''LIVEKIT_API_KEY'' \<noteq> [] \<and>
      getenv ''LIVEKIT_API_SECRET'' \<noteq> [] \<and> 1024 \<le> envInt getenv ''MEDIA_PORT_MIN'' 40000 \<and>
      envInt getenv ''MEDIA_PORT_MIN'' 40000 \<le> envInt getenv ''MEDIA_PORT_MAX'' 49999 \<and>
      envInt getenv ''MEDIA_PORT_MAX'' 49999 \<le> 65535) \<and>
   (case Load getenv of Inl e \<Rightarrow> True
      | Inr c \<Rightarrow> config_ok c \<and> Some (c_PublicIP c) = parse_addr4 (getenv ''PUBLIC_IP''))"
  using config_loads_ok [of getenv] by (auto simp: Load_def Let_def split: option.splits)

text \<open>
  The report intervals are disabled (zero) exactly by the values "0", "off" and
  "false"; anything else, also an unreadable or non-positive duration, leaves them enabled.
  The call cap cannot be disabled from the environment at all.
\<close>

lemma Load_intervals:
  assumes "Load getenv = Inr c"
  shows "(c_RTCPInterval c = 0 \<longleftrightarrow> getenv ''RTCP_INTERVAL'' \<in> {''0'', ''off'', ''false''}) \<and>
     (c_StatsInterval c = 0 \<longleftrightarrow> getenv ''STATS_INTERVAL'' \<in> {''0'', ''off'', ''false''}) \<and>
     0 < c_MaxCallDuration c"
proof -
  have "0 < envDuration getenv k (2 * second)" "0 < envDuration getenv k (15 * second)"
    "0 < envDuration getenv k (2 * hour)" for k
    by (simp_all add: envDuration_pos)
  then have pos: "envDuration getenv k (2 * second) \<noteq> 0" "envDuration getenv k (15 * second) \<noteq> 0"
    "0 < envDuration getenv k (2 * hour)" for k
    by (simp_all add: less_imp_neq [symmetric])
  from assms have "c_RTCPInterval c = envDurationOrOff getenv ''RTCP_INTERVAL'' (2 * second)"
    "c_StatsInterval c = envDurationOrOff getenv ''STATS_INTERVAL'' (15 * second)"
    "c_MaxCallDuration c = envDuration getenv ''MAX_CALL_DURATION'' (2 * hour)"
    by (auto simp: Load_def Let_def split: option.splits if_splits)
  with pos show ?thesis by (simp add: envDurationOrOff_def)
qed

text \<open>The environment of the repository's configuration tests.\<close>

definition test_env :: environment where
  "test_env k =
     (if k = ''PUBLIC_IP'' then ''203.0.113.10''
      else if k = ''LIVEKIT_API_KEY'' then ''key''
      else if k = ''LIVEKIT_API_SECRET'' then ''secret''
      else if k = ''RTCP_INTERVAL'' then ''off''
      else [])"

lemma Load_intervals_example:
  "\<exists>c. Load test_env = Inr c \<and> c_RTCPInterval c = 0 \<and> c_StatsInterval c \<noteq> 0 \<and> c_MaxCallDuration c = 2 * hour"
proof -
  have "parse_addr4 (test_env ''PUBLIC_IP'') = Some (203, 0, 113, 10)" by code_simp
  then obtain c where c: "Load test_env = Inr c" "c_MaxCallDuration c = 2 * hour"
    by (simp add: Load_def Let_def envInt_def envDuration_def test_env_def)
  with Load_intervals [OF c(1)] show ?thesis by (simp add: test_env_def)
qed

text \<open>A loaded configuration gives the call manager an allocator it can use.\<close>

lemma config_ok_ports: "config_ok c \<Longrightarrow> port_range_ok \<lparr>pa_min = c_PortMin c, pa_max = c_PortMax c, pa_next = k\<rparr>"
  by (simp add: config_ok_def port_range_ok_def)

end
