(* ===== verification/Service.thy ===== *)
theory Service
  imports Manager Config
begin

text \<open>
  The front of the connector: \<open>internal/connector/service.go\<close> (the Twirp methods: validation,
  defaults, translation of the manager's errors), \<open>internal/connector/auth.go\<close> (the bearer
  token check in front of them) and the wiring of \<open>cmd/whatsapp-connector/main.go\<close>. The token
  library is an argument; a nil request or message is \<open>None\<close>.
\<close>

section \<open>Errors of the API\<close>

datatype twirp_error =
    InvalidArgument string string      \<comment> \<open>\<open>twirp.InvalidArgumentError(argument, message)\<close>\<close>
  | DeadlineExceeded string
  | InternalError go_error
  | Unimplemented string

type_synonym 'a rpc = "twirp_error + 'a"

definition is_context_error :: "go_error \<Rightarrow> bool" where
  "is_context_error e \<longleftrightarrow> err_is e ErrCanceled \<or> err_is e ErrDeadlineExceeded"

definition setup_error :: "go_error \<Rightarrow> twirp_error" where
  "setup_error e = (if is_context_error e then DeadlineExceeded ''WhatsApp call setup timed out'' else InvalidArgument ''call'' (err_text e))"

section \<open>Requests\<close>

record sdp_msg =
  sm_Type :: string
  sm_Sdp :: string

record acceptRequest =
  ar_params :: callParams
  ar_Sdp :: "sdp_msg option"
  ar_RingingTimeout :: "duration option"

record dialRequest =
  dr_params :: dialParams
  dr_RingingTimeout :: "duration option"

record connectRequest =
  nr_CallID :: string
  nr_Sdp :: "sdp_msg option"
  nr_Wait :: bool

record disconnectRequest =
  xr_CallID :: string
  xr_UserInitiated :: bool
  xr_APIKey :: string

definition ringing_timeout :: "duration \<Rightarrow> duration option \<Rightarrow> duration" where
  "ringing_timeout dflt t = (case t of Some d \<Rightarrow> if 0 < d then d else dflt | None \<Rightarrow> dflt)"

section \<open>Methods\<close>

text \<open>\<open>res\<close> is what waiting for the call returns, when the request waits.\<close>

definition AcceptWhatsAppCall :: "world \<Rightarrow> go_error option \<Rightarrow> acceptRequest option \<Rightarrow> manager \<Rightarrow> string rpc \<times> manager" where
  "AcceptWhatsAppCall w res req m =
     (case req of
        None \<Rightarrow> (Inl (InvalidArgument ''sdp'' ''an SDP offer is required''), m)
      | Some q \<Rightarrow>
          (case ar_Sdp q of
             None \<Rightarrow> (Inl (InvalidArgument ''sdp'' ''an SDP offer is required''), m)
           | Some sdp \<Rightarrow>
               if sm_Type sdp \<noteq> ''offer'' then (Inl (InvalidArgument ''sdp'' ''an SDP offer is required''), m)
               else
                 (case mgr_Accept w res ((ar_params q)\<lparr>cp_SDP := sm_Sdp sdp,
                         cp_Timeout := ringing_timeout (30 * second) (ar_RingingTimeout q)\<rparr>) m of
                    (room, Some e, m1) \<Rightarrow> (Inl (setup_error e), m1)
                  | (room, None, m1) \<Rightarrow> (Inr room, m1))))"

definition DisconnectWhatsAppCall :: "disconnectRequest option \<Rightarrow> manager \<Rightarrow> unit rpc \<times> manager" where
  "DisconnectWhatsAppCall req m =
     (case req of
        None \<Rightarrow> (Inl (InvalidArgument ''whatsapp_call_id'' ''is required''), m)
      | Some q \<Rightarrow>
          if xr_CallID q = [] then (Inl (InvalidArgument ''whatsapp_call_id'' ''is required''), m)
          else if \<not> xr_UserInitiated q \<and> xr_APIKey q = []
          then (Inl (InvalidArgument ''whatsapp_api_key'' ''is required for business-initiated disconnect''), m)
          else (Inr (), mgr_Disconnect (xr_CallID q) (xr_UserInitiated q) (xr_APIKey q) m))"

definition DialWhatsAppCall :: "world \<Rightarrow> network \<Rightarrow> client \<Rightarrow> dialRequest option \<Rightarrow> manager \<Rightarrow> (string \<times> string) rpc \<times> manager" where
  "DialWhatsAppCall w net cl req m =
     (case req of
        None \<Rightarrow> (Inl (InvalidArgument ''call'' ''phone number id, destination, API key and API version are required''), m)
      | Some q \<Rightarrow>
          if \<not> dial_fields (dr_params q)
          then (Inl (InvalidArgument ''call'' ''phone number id, destination, API key and API version are required''), m)
          else
            (case mgr_Dial w net cl ((dr_params q)\<lparr>dp_base := (dp_base (dr_params q))\<lparr>cp_Timeout :=
                    ringing_timeout (45 * second) (dr_RingingTimeout q)\<rparr>\<rparr>) m of
               (Inl e, m1) \<Rightarrow> (Inl (InvalidArgument ''call'' (err_text e)), m1)
             | (Inr r, m1) \<Rightarrow> (Inr r, m1)))"

definition ConnectWhatsAppCall :: "world \<Rightarrow> go_error option \<Rightarrow> connectRequest option \<Rightarrow> manager \<Rightarrow> unit rpc \<times> manager" where
  "ConnectWhatsAppCall w res req m =
     (case req of
        None \<Rightarrow> (Inl (InvalidArgument ''sdp'' ''a call id and SDP answer are required''), m)
      | Some q \<Rightarrow>
          (case nr_Sdp q of
             None \<Rightarrow> (Inl (InvalidArgument ''sdp'' ''a call id and SDP answer are required''), m)
           | Some sdp \<Rightarrow>
               if nr_CallID q = [] \<or> sm_Type sdp \<noteq> ''answer'' \<or> sm_Sdp sdp = []
               then (Inl (InvalidArgument ''sdp'' ''a call id and SDP answer are required''), m)
               else
                 (case mgr_Connect w res (nr_CallID q) (sm_Sdp sdp) (nr_Wait q) m of
                    (Some e, m1) \<Rightarrow> (Inl (setup_error e), m1)
                  | (None, m1) \<Rightarrow> (Inr (), m1))))"

definition ConnectTwilioCall :: "unit rpc" where
  "ConnectTwilioCall = Inl (Unimplemented ''Twilio calling is not implemented'')"

section \<open>Authentication\<close>

record grants =
  gr_Video :: "bool option"      \<comment> \<open>\<open>grants.Video.RoomCreate\<close>, if there is a video grant\<close>

datatype auth_outcome = Serve | Unauthorized string

text \<open>\<open>parse\<close>, \<open>key_of\<close> and \<open>verify\<close> are the token library.\<close>

definition AuthMiddleware :: "(string \<Rightarrow> 'tok result) \<Rightarrow> ('tok \<Rightarrow> string) \<Rightarrow> ('tok \<Rightarrow> string \<Rightarrow> grants option result) \<Rightarrow>
    string \<Rightarrow> string \<Rightarrow> string \<Rightarrow> auth_outcome" where
  "AuthMiddleware parse key_of verify apiKey apiSecret authorization =
     (if \<not> has_prefix authorization ''Bearer '' then Unauthorized ''missing bearer token''
      else (case parse (trim_space (trim_prefix authorization ''Bearer '')) of
        Inl e \<Rightarrow> Unauthorized ''invalid bearer token''
      | Inr v \<Rightarrow>
          if key_of v \<noteq> apiKey then Unauthorized ''invalid bearer token''
          else (case verify v apiSecret of
            Inl e \<Rightarrow> Unauthorized ''roomCreate permission required''
          | Inr None \<Rightarrow> Unauthorized ''roomCreate permission required''
          | Inr (Some g) \<Rightarrow> if gr_Video g \<noteq> Some True then Unauthorized ''roomCreate permission required'' else Serve)))"

record http_reply =
  hp_status :: int
  hp_contentType :: string
  hp_body :: string

text \<open>\<open>json.NewEncoder(w).Encode\<close> of the map, for messages without characters that JSON escapes.\<close>

definition writeAuthError :: "string \<Rightarrow> http_reply" where
  "writeAuthError message = \<lparr>hp_status = 401, hp_contentType = ''application/json'',
     hp_body = ''{'' @ [CHR 0x22] @ ''code'' @ [CHR 0x22] @ '':'' @ [CHR 0x22] @ ''unauthenticated'' @ [CHR 0x22] @ '','' @
       [CHR 0x22] @ ''msg'' @ [CHR 0x22] @ '':'' @ [CHR 0x22] @ message @ [CHR 0x22] @ ''}'' @ [CHR 0x0A]\<rparr>"

section \<open>Wiring\<close>

text \<open>The manager that \<open>main\<close> builds from the configuration.\<close>

definition main_manager :: "config \<Rightarrow> manager" where
  "main_manager c = NewManager \<lparr>mc_PublicIP = c_PublicIP c, mc_SetupTimeout = c_SetupTimeout c,
     mc_MediaTimeout = c_MediaTimeout c, mc_MaxCallDuration = c_MaxCallDuration c,
     mc_RTCPInterval = c_RTCPInterval c, mc_StatsInterval = c_StatsInterval c\<rparr> (c_PortMin c) (c_PortMax c)"

text \<open>A request for a concrete example.\<close>

definition demo_request :: acceptRequest where
  "demo_request = \<lparr>ar_params = demo_params\<lparr>cp_Wait := True\<rparr>, ar_Sdp = Some \<lparr>sm_Type = ''offer'', sm_Sdp = ''v=0''\<rparr>,
     ar_RingingTimeout = None\<rparr>"

section \<open>Lemmas\<close>

lemma has_prefix_iff: "has_prefix s p \<longleftrightarrow> (\<exists>rest. s = p @ rest)"
  unfolding has_prefix_def by (metis append_eq_conv_conj append_take_drop_id)

lemma grants_eq: "gr_Video g = v \<longleftrightarrow> g = \<lparr>gr_Video = v\<rparr>"
  by (cases g) auto

lemma auth_bearer:
  "AuthMiddleware parse key_of verify apiKey apiSecret (''Bearer '' @ rest) = Serve \<longleftrightarrow>
   (\<exists>v. parse (trim_space rest) = Inr v \<and> key_of v = apiKey \<and> verify v apiSecret = Inr (Some \<lparr>gr_Video = Some True\<rparr>))"
  unfolding AuthMiddleware_def trim_prefix_append
  by (auto simp: has_prefix_iff grants_eq split: sum.splits option.splits)

lemma auth_no_bearer:
  "\<not> has_prefix authorization ''Bearer '' \<Longrightarrow>
   AuthMiddleware parse key_of verify apiKey apiSecret authorization = Unauthorized ''missing bearer token''"
  by (simp add: AuthMiddleware_def)

lemma config_ports_usable: "config_ok c \<Longrightarrow> port_range_ok (mg_ports (main_manager c))"
  by (auto simp: config_ok_def main_manager_def NewManager_def port_range_ok_def)

section \<open>Properties\<close>

text \<open>
  No request reaches the service without authority: the middleware passes a request on
  exactly if its header is a bearer token that parses, names the configured API key, verifies
  under the configured secret and grants room creation.
\<close>

lemma auth_served:
  "AuthMiddleware parse key_of verify apiKey apiSecret authorization = Serve \<longleftrightarrow>
   (\<exists>rest v. authorization = ''Bearer '' @ rest \<and> parse (trim_space rest) = Inr v \<and> key_of v = apiKey \<and>
      verify v apiSecret = Inr (Some \<lparr>gr_Video = Some True\<rparr>))"
proof (cases "has_prefix authorization ''Bearer ''")
  case True
  then obtain rest where "authorization = ''Bearer '' @ rest" by (auto simp: has_prefix_iff)
  then show ?thesis using auth_bearer [of parse key_of verify apiKey apiSecret rest] by auto
next
  case False
  then show ?thesis by (auto simp: auth_no_bearer has_prefix_iff)
qed

text \<open>
  Time-outs are reported inconsistently: when the manager fails with a context error,
  accepting a call answers with the code deadline exceeded, but dialling never does; the
  caller of a dial that timed out is told that its argument is invalid.
\<close>

lemma service_timeout_codes:
  assumes "mgr_Accept w res ((ar_params q)\<lparr>cp_SDP := sm_Sdp sdp, cp_Timeout := ringing_timeout (30 * second) (ar_RingingTimeout q)\<rparr>) m
      = (room, Some e, m1)" "is_context_error e" "ar_Sdp q = Some sdp" "sm_Type sdp = ''offer''"
  shows "AcceptWhatsAppCall w res (Some q) m = (Inl (DeadlineExceeded ''WhatsApp call setup timed out''), m1) \<and>
    fst (DialWhatsAppCall w' net cl req m') \<noteq> Inl (DeadlineExceeded msg)"
  using assms
  by (auto simp: AcceptWhatsAppCall_def DialWhatsAppCall_def setup_error_def split: option.splits prod.splits sum.splits)

lemma service_timeout_codes_example:
  "fst (AcceptWhatsAppCall demo_world (Some ErrDeadlineExceeded) (Some demo_request) demo_one) =
     Inl (DeadlineExceeded ''WhatsApp call setup timed out'')"
proof -
  let ?p = "(ar_params demo_request)\<lparr>cp_SDP := sm_Sdp \<lparr>sm_Type = ''offer'', sm_Sdp = ''v=0''\<rparr>,
      cp_Timeout := ringing_timeout (30 * second) (ar_RingingTimeout demo_request)\<rparr>"
  have "Accept_enter ?p demo_one = Inr (Some 0)"
    by (simp add: Accept_enter_def accept_fields_def demo_request_def demo_params_def demo_one_def demo_mgr_def
        NewManager_def register_def demo_call_def new_inbound_def)
  then have "mgr_Accept demo_world (Some ErrDeadlineExceeded) ?p demo_one = (room_of demo_one 0, Some ErrDeadlineExceeded, demo_one)"
    by (simp add: mgr_Accept_def Accept_wait_def demo_request_def)
  from service_timeout_codes [OF this] show ?thesis
    by (simp add: is_context_error_def demo_request_def)
qed

end
