(* ===== verification/Process.thy ===== *)
theory Process
  imports Service
begin

text \<open>
  \<open>cmd/whatsapp-connector/main.go\<close>: start-up with its exit codes, the routes of the HTTP server,
  and shutting down. \<open>hstep\<close> is one request inside the server, section by section; \<open>pstep\<close>
  interleaves all requests in flight with the goroutines of all calls and with the main
  goroutine, which on a signal shuts down first the HTTP server and then the manager, both
  under the same deadline, measured on the clock of the process. \<open>net/http\<close> is represented by
  what it documents: the matching of \<open>ServeMux\<close> for requests other than CONNECT and paths without
  percent escapes, and \<open>Server.Shutdown\<close>, which returns nil once no request is in flight, after
  which none is started, or the error of its context.
\<close>

section \<open>Start-up\<close>

datatype start = ExitWith int | Started config manager

definition main_start :: "(string \<Rightarrow> string) \<Rightarrow> start" where
  "main_start getenv = (case Load getenv of Inl e \<Rightarrow> ExitWith 2 | Inr conf \<Rightarrow> Started conf (main_manager conf))"

text \<open>What the goroutine of the server does when \<open>ListenAndServe\<close> returns: the exit code, if the
  error is not \<open>http.ErrServerClosed\<close>.\<close>

definition main_listen_failed :: "bool \<Rightarrow> int option" where
  "main_listen_failed serverClosed = (if \<not> serverClosed then Some 1 else None)"

section \<open>Routes\<close>

text \<open>The canonical form of a request path (\<open>cleanPath\<close> of \<open>net/http\<close>).\<close>

fun clean_segments :: "string list \<Rightarrow> string list \<Rightarrow> string list" where
  "clean_segments st [] = rev st"
| "clean_segments st (x # xs) =
     (if x = [] \<or> x = ''.'' then clean_segments st xs
      else if x = ''..'' then clean_segments (drop 1 st) xs
      else clean_segments (x # st) xs)"

definition clean_path :: "string \<Rightarrow> string" where
  "clean_path p =
     (if p = [] then ''/''
      else
        let q = (if take 1 p = ''/'' then p else CHR ''/'' # p);
            segs = clean_segments [] (split_on CHR ''/'' q);
            np = (if segs = [] then ''/'' else concat (map (\<lambda>x. CHR ''/'' # x) segs))
        in if last q = CHR ''/'' \<and> np \<noteq> ''/'' then np @ ''/'' else np)"

datatype route = ToConnector | ToHealth | ToMetrics | Redirect string | NotFound

text \<open>The three patterns; \<open>prefix\<close> is \<open>livekit.ConnectorPathPrefix\<close>, a pattern for a subtree.\<close>

definition mux_match :: "string \<Rightarrow> string \<Rightarrow> route option" where
  "mux_match prefix path =
     (if path = ''/healthz'' then Some ToHealth
      else if path = ''/metrics'' then Some ToMetrics
      else if has_prefix path prefix then Some ToConnector else None)"

definition serve_mux :: "string \<Rightarrow> string \<Rightarrow> route" where
  "serve_mux prefix path =
     (let p = clean_path path
      in case mux_match prefix p of
           None \<Rightarrow> if p @ ''/'' = prefix then Redirect prefix else if p \<noteq> path then Redirect p else NotFound
         | Some h \<Rightarrow> if p \<noteq> path then Redirect p else h)"

datatype served = Twirp | Reply http_reply | Metrics | Moved string | Missing

definition healthz :: http_reply where
  "healthz = \<lparr>hp_status = 200, hp_contentType = ''text/plain; charset=utf-8'', hp_body = ''ok'' @ [CHR 0x0A]\<rparr>"

definition main_serve :: "(string \<Rightarrow> 'tok result) \<Rightarrow> ('tok \<Rightarrow> string) \<Rightarrow> ('tok \<Rightarrow> string \<Rightarrow> grants option result) \<Rightarrow>
    config \<Rightarrow> string \<Rightarrow> string \<Rightarrow> string \<Rightarrow> served" where
  "main_serve parse key_of verify conf prefix path authorization =
     (case serve_mux prefix path of
        ToConnector \<Rightarrow>
          (case AuthMiddleware parse key_of verify (c_LiveKitAPIKey conf) (c_LiveKitSecret conf) authorization of
             Serve \<Rightarrow> Twirp
           | Unauthorized message \<Rightarrow> Reply (writeAuthError message))
      | ToHealth \<Rightarrow> Reply healthz
      | ToMetrics \<Rightarrow> Metrics
      | Redirect p \<Rightarrow> Moved p
      | NotFound \<Rightarrow> Missing)"

section \<open>Requests in flight\<close>

text \<open>Where a request stands in the manager: \<open>Accept\<close> before its first section, in its set-up,
  before its second section, waiting (for a new or an old call); \<open>Dial\<close> likewise; \<open>Connect\<close>
  before and after it has found the call, and waiting; \<open>Disconnect\<close> before and after it has
  found the call, and after it has replaced the token.\<close>

datatype handler =
    H_accept callParams | H_setup callParams | H_accepting callParams call | H_wait callParams nat bool
  | H_dial dialParams | H_dialSetup dialParams | H_dialling call
  | H_connect string string bool | H_connectCall nat string bool | H_connectWait nat
  | H_disconnect string bool string | H_token nat bool string | H_stop nat bool

inductive hstep :: "handler \<Rightarrow> manager \<Rightarrow> handler option \<Rightarrow> manager \<Rightarrow> bool" where
  accept_refused: "Accept_enter p m = Inl e \<Longrightarrow> hstep (H_accept p) m None m"
| accept_known: "Accept_enter p m = Inr (Some r) \<Longrightarrow>
    hstep (H_accept p) m (if cp_Wait p then Some (H_wait p r False) else None) m"
| accept_new: "Accept_enter p m = Inr None \<Longrightarrow> hstep (H_accept p) m (Some (H_setup p)) m"
| accept_failed: "Accept_prepare w p m = (Inl e, m1) \<Longrightarrow> hstep (H_setup p) m None m1"
| accept_prepared: "Accept_prepare w p m = (Inr c, m1) \<Longrightarrow> hstep (H_setup p) m (Some (H_accepting p c)) m1"
| accept_register: "Accept_register c m = ((r, fresh), m1) \<Longrightarrow>
    hstep (H_accepting p c) m (if cp_Wait p then Some (H_wait p r fresh) else None) m1"
| accept_waited: "mg_heap m r = Some s \<Longrightarrow> call_wait f ctx (cs_c s) = Some res \<Longrightarrow> Accept_wait p res r fresh m = (room, e, m1) \<Longrightarrow>
    hstep (H_wait p r fresh) m None m1"
| dial_refused: "Dial_enter p m = Inl e \<Longrightarrow> hstep (H_dial p) m None m"
| dial_entered: "Dial_enter p m = Inr () \<Longrightarrow> hstep (H_dial p) m (Some (H_dialSetup p)) m"
| dial_failed: "Dial_prepare w net cl p m = (Inl e, tries, m1) \<Longrightarrow> hstep (H_dialSetup p) m None m1"
| dial_prepared: "Dial_prepare w net cl p m = (Inr c, tries, m1) \<Longrightarrow> hstep (H_dialSetup p) m (Some (H_dialling c)) m1"
| dial_register: "Dial_register c m = (x, m1) \<Longrightarrow> hstep (H_dialling c) m None m1"
| connect_unknown: "mg_calls m cid = None \<Longrightarrow> hstep (H_connect cid answer wait) m None m"
| connect_found: "mg_calls m cid = Some r \<Longrightarrow> hstep (H_connect cid answer wait) m (Some (H_connectCall r answer wait)) m"
| connect_apply: "mg_heap m r = Some s \<Longrightarrow> call_Connect unmarshal uc answer (cs_c s) = (e, c) \<Longrightarrow>
    hstep (H_connectCall r answer wait) m (if wait \<and> e = None then Some (H_connectWait r) else None)
      (m\<lparr>mg_heap := (mg_heap m)(r \<mapsto> s\<lparr>cs_c := c\<rparr>)\<rparr>)"
| connect_waited: "mg_heap m r = Some s \<Longrightarrow> call_wait f ctx (cs_c s) = Some res \<Longrightarrow> hstep (H_connectWait r) m None m"
| disconnect_unknown: "mg_calls m cid = None \<Longrightarrow> hstep (H_disconnect cid user tok) m None m"
| disconnect_found: "mg_calls m cid = Some r \<Longrightarrow> hstep (H_disconnect cid user tok) m (Some (H_token r user tok)) m"
| token: "hstep (H_token r user tok) m (Some (H_stop r user)) (update_call r (set_token tok) m)"
| stop: "hstep (H_stop r user) m None (update_call r (if user then stopUser else stopBusiness) m)"

text \<open>A request that has just been dispatched; the call that a request is about to register; what
  is known of such calls.\<close>

definition fresh_handler :: "handler \<Rightarrow> bool" where
  "fresh_handler h = (case h of H_accept p \<Rightarrow> True | H_dial p \<Rightarrow> True | H_connect a b c \<Rightarrow> True | H_disconnect a b c \<Rightarrow> True | _ \<Rightarrow> False)"

definition prepared :: "handler \<Rightarrow> call option" where
  "prepared h = (case h of H_accepting p c \<Rightarrow> Some c | H_dialling c \<Rightarrow> Some c | _ \<Rightarrow> None)"

definition handler_ok :: "handler \<Rightarrow> bool" where
  "handler_ok h = (case h of
      H_accepting p c \<Rightarrow> \<exists>q answer. c = new_inbound q answer
    | H_dialling c \<Rightarrow> \<exists>q n. c = new_outbound q n
    | _ \<Rightarrow> True)"

section \<open>The process\<close>

datatype phase = Serving | ServerStopping | ManagerStopping | Waiting | Exited "go_error option"

text \<open>\<open>ps_window\<close> is \<open>conf.ShutdownWindow\<close>, \<open>ps_now\<close> the clock, \<open>ps_deadline\<close> the deadline of the context
  of the shutdown. As history: \<open>ps_drained\<close>: \<open>server.Shutdown\<close> returned nil; \<open>ps_stopAt\<close>: when
  \<open>manager.Shutdown\<close> was called; \<open>ps_reused\<close>: Meta has allotted a dialled call the id of a call
  that was registered.\<close>

record psys =
  ps_m :: manager
  ps_handlers :: "handler list"
  ps_phase :: phase
  ps_drained :: bool
  ps_window :: duration
  ps_now :: duration
  ps_deadline :: "duration option"
  ps_stopAt :: duration
  ps_reused :: bool

definition proc_init :: "psys \<Rightarrow> bool" where
  "proc_init s \<longleftrightarrow> (\<exists>conf. s = \<lparr>ps_m = main_manager conf, ps_handlers = [], ps_phase = Serving, ps_drained = False,
     ps_window = c_ShutdownWindow conf, ps_now = 0, ps_deadline = None, ps_stopAt = 0, ps_reused = False\<rparr>)"

text \<open>Whether the context of the shutdown has ended.\<close>

definition expired :: "psys \<Rightarrow> bool" where
  "expired s = (case ps_deadline s of None \<Rightarrow> False | Some t \<Rightarrow> t \<le> ps_now s)"

definition running :: "psys \<Rightarrow> bool" where
  "running s = (case ps_phase s of Exited r \<Rightarrow> False | _ \<Rightarrow> True)"

definition reuses :: "handler \<Rightarrow> manager \<Rightarrow> bool" where
  "reuses h m = (case h of H_dialling c \<Rightarrow> \<not> mg_draining m \<and> mg_calls m (cp_CallID (ca_params c)) \<noteq> None | _ \<Rightarrow> False)"

inductive pstep :: "duration \<Rightarrow> psys \<Rightarrow> psys \<Rightarrow> bool" for d where
  arrive: "running s \<Longrightarrow> \<not> ps_drained s \<Longrightarrow> fresh_handler h \<Longrightarrow> pstep d s (s\<lparr>ps_handlers := h # ps_handlers s\<rparr>)"
| request: "running s \<Longrightarrow> ps_handlers s = xs @ h # ys \<Longrightarrow> hstep h (ps_m s) h' m \<Longrightarrow>
    pstep d s (s\<lparr>ps_m := m, ps_handlers := xs @ (case h' of Some x \<Rightarrow> [x] | None \<Rightarrow> []) @ ys,
      ps_reused := (ps_reused s \<or> reuses h (ps_m s))\<rparr>)"
| call: "running s \<Longrightarrow> mg_heap (ps_m s) r = Some c \<Longrightarrow> cstep d c t \<Longrightarrow>
    pstep d s (s\<lparr>ps_m := (ps_m s)\<lparr>mg_heap := (mg_heap (ps_m s))(r \<mapsto> t)\<rparr>\<rparr>)"
| delete: "running s \<Longrightarrow> mg_heap (ps_m s) r = Some c \<Longrightarrow> cs_pc c = P_delete \<Longrightarrow> pstep d s (s\<lparr>ps_m := finish_delete r (ps_m s)\<rparr>)"
| finished: "running s \<Longrightarrow> mg_heap (ps_m s) r = Some c \<Longrightarrow> cs_pc c = P_wg \<Longrightarrow> pstep d s (s\<lparr>ps_m := finish_done r (ps_m s)\<rparr>)"
| signal: "ps_phase s = Serving \<Longrightarrow> pstep d s (s\<lparr>ps_phase := ServerStopping, ps_deadline := Some (ps_now s + ps_window s)\<rparr>)"
| elapse: "running s \<Longrightarrow> 0 < dt \<Longrightarrow> pstep d s (s\<lparr>ps_now := ps_now s + dt\<rparr>)"
| server_down: "ps_phase s = ServerStopping \<Longrightarrow> ps_handlers s = [] \<Longrightarrow>
    pstep d s (s\<lparr>ps_phase := ManagerStopping, ps_drained := True\<rparr>)"
| server_timeout: "ps_phase s = ServerStopping \<Longrightarrow> expired s \<Longrightarrow> pstep d s (s\<lparr>ps_phase := ManagerStopping\<rparr>)"
| manager_stop: "ps_phase s = ManagerStopping \<Longrightarrow> pstep d s (s\<lparr>ps_m := mgr_Shutdown (ps_m s), ps_phase := Waiting, ps_stopAt := ps_now s\<rparr>)"
| exits: "ps_phase s = Waiting \<Longrightarrow>
    shutdown_wait f (if expired s then Some ErrDeadlineExceeded else None) (ps_m s) = Some r \<Longrightarrow>
    pstep d s (s\<lparr>ps_phase := Exited r\<rparr>)"

section \<open>What one step can do to the manager\<close>

text \<open>The registry unchanged, and every call still there under its id, no less cancelled and no
  less advanced.\<close>

definition call_le :: "csys \<Rightarrow> csys \<Rightarrow> bool" where
  "call_le s t \<longleftrightarrow> cp_CallID (ca_params (cs_c t)) = cp_CallID (ca_params (cs_c s)) \<and>
     (ca_cancelled (cs_c s) \<longrightarrow> ca_cancelled (cs_c t)) \<and> (3 \<le> prank (cs_pc t) \<longrightarrow> 3 \<le> prank (cs_pc s))"

definition mgr_le :: "manager \<Rightarrow> manager \<Rightarrow> bool" where
  "mgr_le m m' \<longleftrightarrow> mg_calls m' = mg_calls m \<and> (\<forall>r. rel_option call_le (mg_heap m r) (mg_heap m' r))"

lemma call_le_refl [simp]: "call_le s s"
  by (simp add: call_le_def)

lemma rel_call_le_refl [simp]: "rel_option call_le x x"
  by (cases x) auto

lemma mgr_le_refl [simp]: "mgr_le m m"
  by (simp add: mgr_le_def)

lemma mgr_le_ports [simp]: "mgr_le m (m\<lparr>mg_ports := ps\<rparr>)"
  by (simp add: mgr_le_def)

lemma mgr_le_call: "mg_heap m r = Some s \<Longrightarrow> call_le s t \<Longrightarrow> mgr_le m (m\<lparr>mg_heap := (mg_heap m)(r \<mapsto> t)\<rparr>)"
  by (simp add: mgr_le_def)

lemma mgr_le_update:
  assumes "\<And>c. cp_CallID (ca_params (f c)) = cp_CallID (ca_params c) \<and> (ca_cancelled c \<longrightarrow> ca_cancelled (f c))"
  shows "mgr_le m (update_call r f m)"
proof -
  have "rel_option call_le (mg_heap m r) (map_option (\<lambda>s. s\<lparr>cs_c := f (cs_c s)\<rparr>) (mg_heap m r))"
    using assms by (cases "mg_heap m r") (auto simp: call_le_def)
  then show ?thesis by (simp add: mgr_le_def update_call_def)
qed

lemma cstep_le: "cstep d s t \<Longrightarrow> call_le s t"
proof -
  assume st: "cstep d s t"
  then have "prank (cs_pc t) \<le> prank (cs_pc s)"
    unfolding cstep_def using prank_run prank_ext by fastforce
  with cstep_keeps [OF st] show ?thesis by (simp add: call_le_def)
qed

lemma prepare_ports: "Accept_prepare w p m = (x, m1) \<Longrightarrow> \<exists>ps. m1 = m\<lparr>mg_ports := ps\<rparr>"
  "Dial_prepare w net cl dp m = (y, tries, m2) \<Longrightarrow> \<exists>ps. m2 = m\<lparr>mg_ports := ps\<rparr>"
  by (auto simp: Accept_prepare_def Dial_prepare_def Let_def split: prod.splits sum.splits)

lemma prepare_call: "Accept_prepare w p m = (Inr c, m1) \<Longrightarrow> \<exists>q answer. c = new_inbound q answer"
  "Dial_prepare w net cl dp m = (Inr c, tries, m2) \<Longrightarrow> \<exists>q n. c = new_outbound q n"
  by (auto simp: Accept_prepare_def Dial_prepare_def Let_def split: prod.splits sum.splits)

text \<open>A request only takes steps that the manager's own step relation has.\<close>

lemma ext_msteps:
  assumes "ext_step\<^sup>*\<^sup>* s t" "mg_heap m r = Some s"
  shows "(mstep d)\<^sup>*\<^sup>* m (m\<lparr>mg_heap := (mg_heap m)(r \<mapsto> t)\<rparr>)"
  using assms
proof (induction rule: rtranclp_induct)
  case base
  then have "m\<lparr>mg_heap := (mg_heap m)(r \<mapsto> s)\<rparr> = m" by (simp add: fun_upd_idem)
  then show ?case by (simp only: rtranclp.rtrancl_refl)
next
  case (step t u)
  let ?m = "m\<lparr>mg_heap := (mg_heap m)(r \<mapsto> t)\<rparr>"
  have "mstep d ?m (?m\<lparr>mg_heap := (mg_heap ?m)(r \<mapsto> u)\<rparr>)"
    using step.hyps(2) by (intro mstep.call) (auto simp: cstep_def)
  then have "mstep d ?m (m\<lparr>mg_heap := (mg_heap m)(r \<mapsto> u)\<rparr>)" by simp
  with step.IH [OF step.prems] show ?case by (rule rtranclp.rtrancl_into_rtrancl)
qed

lemma update_msteps:
  assumes "\<And>s. ext_step\<^sup>*\<^sup>* s (s\<lparr>cs_c := f (cs_c s)\<rparr>)"
  shows "(mstep d)\<^sup>*\<^sup>* m (update_call r f m)"
proof (cases "mg_heap m r")
  case None
  then have "update_call r f m = m" by (simp add: update_call_def fun_upd_idem)
  then show ?thesis by simp
next
  case (Some s)
  then show ?thesis using ext_msteps [OF assms Some] by (simp add: update_call_def)
qed

lemma wait_msteps: "Accept_wait p res r fresh m = (room, e, m1) \<Longrightarrow> (mstep d)\<^sup>*\<^sup>* m m1"
  using update_msteps [OF stop_business_steps, of d m r] by (auto simp: Accept_wait_def split: if_splits)

lemma hstep_msteps: "hstep h m h' m1 \<Longrightarrow> handler_ok h \<Longrightarrow> (mstep d)\<^sup>*\<^sup>* m m1"
proof (induction rule: hstep.induct)
  case (accept_register c m r fresh m1 p)
  then show ?case by (auto simp: handler_ok_def intro: mstep.accept)
next
  case (dial_register c m x m1)
  then show ?case by (auto simp: handler_ok_def intro: mstep.dial)
next
  case (connect_apply m r s unmarshal uc answer e c wait)
  then show ?case using ext_msteps [of s "s\<lparr>cs_c := c\<rparr>" m r d] ext_step.connect by blast
next
  case (token r user tok m)
  show ?case by (rule update_msteps) (auto intro: ext_step.token)
next
  case (stop r user m)
  show ?case using update_msteps [OF stop_user_steps] update_msteps [OF stop_business_steps] by simp
qed (auto intro: wait_msteps mstep.ports dest: prepare_ports)

lemma hstep_ok: "hstep h m h' m1 \<Longrightarrow> h' = Some x \<Longrightarrow> handler_ok x"
  by (induction rule: hstep.induct) (auto simp: handler_ok_def dest: prepare_call split: if_splits)

text \<open>Apart from registering the call it has prepared, a request only moves calls forward.\<close>

lemma hstep_le:
  "hstep h m h' m1 \<Longrightarrow> mgr_le m m1 \<or>
     (\<exists>c. prepared h = Some c \<and> m1 = register c m \<and> (mg_calls m (cp_CallID (ca_params c)) = None \<or> reuses h m))"
proof (induction rule: hstep.induct)
  case (accept_register c m r fresh m1 p)
  then show ?case by (auto simp: Accept_register_def prepared_def split: option.splits)
next
  case (dial_register c m x m1)
  then show ?case by (auto simp: Dial_register_def prepared_def reuses_def split: if_splits)
next
  case (accept_waited m r s f ctx res p fresh room e m1)
  then show ?case using mgr_le_update [of stopBusiness m r]
    by (auto simp: Accept_wait_def call_op_defs split: if_splits)
next
  case (connect_apply m r s unmarshal uc answer e c wait)
  then have "call_le s (s\<lparr>cs_c := c\<rparr>)"
    using cstep_le [of 0 s "s\<lparr>cs_c := c\<rparr>"] ext_step.connect by (auto simp: cstep_def)
  with connect_apply show ?case using mgr_le_call by blast
next
  case (token r user tok m)
  then show ?case using mgr_le_update [of "set_token tok" m r] by (auto simp: call_op_defs)
next
  case (stop r user m)
  then show ?case using mgr_le_update [of stopUser m r] mgr_le_update [of stopBusiness m r] by (auto simp: call_op_defs)
qed (auto dest: prepare_ports)

section \<open>Invariant\<close>

text \<open>Calls that have not been removed are registered; registered calls are cancelled.\<close>

definition live_registered :: "manager \<Rightarrow> bool" where
  "live_registered m \<longleftrightarrow> (\<forall>r s. mg_heap m r = Some s \<and> 3 \<le> prank (cs_pc s) \<longrightarrow> registered m r)"

definition registered_cancelled :: "manager \<Rightarrow> bool" where
  "registered_cancelled m \<longleftrightarrow> (\<forall>r s. mg_heap m r = Some s \<and> registered m r \<longrightarrow> ca_cancelled (cs_c s))"

lemma mgr_le_heap: "mgr_le m m' \<Longrightarrow> mg_heap m' r = Some t \<Longrightarrow> \<exists>s. mg_heap m r = Some s \<and> call_le s t"
  unfolding mgr_le_def by (metis option_rel_Some2)

lemma mgr_le_registered: "mgr_le m m' \<Longrightarrow> registered m' r = registered m r"
proof -
  assume le: "mgr_le m m'"
  then have "rel_option call_le (mg_heap m r) (mg_heap m' r)" by (simp add: mgr_le_def)
  with le show ?thesis
    by (cases "mg_heap m r"; cases "mg_heap m' r") (auto simp: registered_def mgr_le_def call_le_def)
qed

lemma live_registered_le: "mgr_le m m' \<Longrightarrow> live_registered m \<Longrightarrow> live_registered m'"
  using mgr_le_heap mgr_le_registered unfolding live_registered_def call_le_def by metis

lemma registered_cancelled_le: "mgr_le m m' \<Longrightarrow> registered_cancelled m \<Longrightarrow> registered_cancelled m'"
  using mgr_le_heap mgr_le_registered unfolding registered_cancelled_def call_le_def by metis

lemma live_registered_register:
  assumes "wg_inv m" "live_registered m" "mg_calls m (cp_CallID (ca_params c)) = None"
  shows "live_registered (register c m)"
proof -
  have "mg_heap m (mg_next m) = None" using assms(1) by (auto simp: wg_inv_def)
  moreover have "cp_CallID (ca_params (cs_c s)) \<noteq> cp_CallID (ca_params c)"
    if "mg_heap m r = Some s" "3 \<le> prank (cs_pc s)" for r s
    using assms(2,3) that by (fastforce simp: live_registered_def registered_def)
  ultimately show ?thesis
    using assms(2) by (auto simp: live_registered_def registered_def register_def start_call_def split: option.splits if_splits)
qed

lemma live_registered_delete:
  assumes "live_registered m" "mg_heap m r = Some c" "cs_pc c = P_delete"
  shows "live_registered (finish_delete r m)"
proof -
  have "mg_calls m (cp_CallID (ca_params (cs_c c))) = Some r"
    using assms by (fastforce simp: live_registered_def registered_def)
  then have "cp_CallID (ca_params (cs_c s)) \<noteq> cp_CallID (ca_params (cs_c c))"
    if "mg_heap m q = Some s" "3 \<le> prank (cs_pc s)" "q \<noteq> r" for q s
    using assms(1) that by (fastforce simp: live_registered_def registered_def)
  with assms show ?thesis
    by (auto simp: live_registered_def registered_def finish_delete_def split: option.splits if_splits)
qed

lemma registered_cancelled_delete:
  "registered_cancelled m \<Longrightarrow> mg_heap m r = Some c \<Longrightarrow> cs_pc c = P_delete \<Longrightarrow> registered_cancelled (finish_delete r m)"
  by (auto simp: registered_cancelled_def registered_def finish_delete_def split: option.splits if_splits)

lemma finish_done_le: "mg_heap m r = Some c \<Longrightarrow> cs_pc c = P_wg \<Longrightarrow> mgr_le m (finish_done r m)"
  by (auto simp: mgr_le_def call_le_def finish_done_def)

lemma shutdown_le: "mgr_le m (mgr_Shutdown m)"
proof -
  have "rel_option call_le (mg_heap m r) (map_option (\<lambda>s. s\<lparr>cs_c := stopBusiness (cs_c s)\<rparr>) (mg_heap m r))" for r
    by (cases "mg_heap m r") (auto simp: call_le_def call_op_defs)
  then show ?thesis by (simp add: mgr_le_def mgr_Shutdown_def)
qed

lemma shutdown_cancels: "registered_cancelled (mgr_Shutdown m)"
  by (auto simp: registered_cancelled_def registered_def mgr_Shutdown_def call_op_defs split: option.splits if_splits)

text \<open>The main goroutine has called \<open>manager.Shutdown\<close>.\<close>

definition manager_stopped :: "psys \<Rightarrow> bool" where
  "manager_stopped s = (case ps_phase s of Waiting \<Rightarrow> True | Exited r \<Rightarrow> True | _ \<Rightarrow> False)"

definition proc_inv :: "psys \<Rightarrow> bool" where
  "proc_inv s \<longleftrightarrow> mgr_inv (ps_m s) \<and> list_all handler_ok (ps_handlers s) \<and>
     (ps_drained s \<longrightarrow> ps_handlers s = [] \<and> ps_phase s \<noteq> Serving \<and> ps_phase s \<noteq> ServerStopping) \<and>
     (\<not> ps_reused s \<longrightarrow> live_registered (ps_m s)) \<and>
     (ps_drained s \<and> manager_stopped s \<longrightarrow> registered_cancelled (ps_m s)) \<and>
     (\<forall>r. ps_phase s = Exited r \<longrightarrow> (r = None \<longrightarrow> mg_wg (ps_m s) = 0))"

lemma fresh_handler_ok: "fresh_handler h \<Longrightarrow> handler_ok h"
  by (cases h) (auto simp: fresh_handler_def handler_ok_def)

lemma proc_msteps: "pstep d s t \<Longrightarrow> list_all handler_ok (ps_handlers s) \<Longrightarrow> (mstep d)\<^sup>*\<^sup>* (ps_m s) (ps_m t)"
  by (erule pstep.cases) (auto intro: hstep_msteps mstep.call mstep.delete mstep.finished mstep.shutdown)

lemma proc_inv_forward:
  assumes "proc_inv s" "mgr_inv m" "mgr_le (ps_m s) m" "running s"
  shows "proc_inv (s\<lparr>ps_m := m\<rparr>)"
  using assms live_registered_le [OF assms(3)] registered_cancelled_le [OF assms(3)]
  by (auto simp: proc_inv_def manager_stopped_def running_def)

lemma proc_inv_request:
  assumes "proc_inv s" "running s" "ps_handlers s = xs @ h # ys" "hstep h (ps_m s) h' m" "mgr_inv m"
  shows "proc_inv (s\<lparr>ps_m := m, ps_handlers := xs @ (case h' of Some x \<Rightarrow> [x] | None \<Rightarrow> []) @ ys,
      ps_reused := (ps_reused s \<or> reuses h (ps_m s))\<rparr>)"
proof -
  have "\<not> ps_drained s" using assms(1,3) by (auto simp: proc_inv_def)
  moreover have "list_all handler_ok (xs @ (case h' of Some x \<Rightarrow> [x] | None \<Rightarrow> []) @ ys)"
    using assms(1,3) hstep_ok [OF assms(4)] by (auto simp: proc_inv_def split: option.splits)
  moreover have "live_registered m" if "\<not> ps_reused s" "\<not> reuses h (ps_m s)"
    using hstep_le [OF assms(4)]
  proof (elim disjE exE conjE)
    show "mgr_le (ps_m s) m \<Longrightarrow> live_registered m"
      using live_registered_le assms(1) that(1) by (auto simp: proc_inv_def)
  qed (use assms(1) that live_registered_register in \<open>auto simp: proc_inv_def mgr_inv_def\<close>)
  ultimately show ?thesis using assms(1,2,5) by (auto simp: proc_inv_def running_def)
qed

lemma proc_inv_step:
  assumes "proc_inv s" "pstep d s t"
  shows "proc_inv t"
proof -
  have "list_all handler_ok (ps_handlers s)" "mgr_inv (ps_m s)" using assms(1) by (simp_all add: proc_inv_def)
  then have m: "mgr_inv (ps_m t)" using mgr.steps_inv [OF proc_msteps [OF assms(2)]] by simp
  from assms(2) show ?thesis
  proof (cases rule: pstep.cases)
    case (arrive h)
    then show ?thesis using assms(1) fresh_handler_ok by (auto simp: proc_inv_def manager_stopped_def)
  next
    case (request xs h ys h' m)
    then show ?thesis using proc_inv_request [OF assms(1)] m by simp
  next
    case (call r c t')
    then show ?thesis using proc_inv_forward [OF assms(1)] mgr_le_call cstep_le m by simp
  next
    case (delete r c)
    then show ?thesis
      using assms(1) m live_registered_delete [OF _ delete(3,4)] registered_cancelled_delete [OF _ delete(3,4)]
      by (auto simp: proc_inv_def running_def manager_stopped_def)
  next
    case (finished r c)
    then show ?thesis using proc_inv_forward [OF assms(1)] finish_done_le m by simp
  next
    case manager_stop
    then show ?thesis
      using assms(1) m shutdown_cancels live_registered_le [OF shutdown_le] by (auto simp: proc_inv_def)
  next
    case (exits f r)
    then show ?thesis using assms(1) by (auto simp: proc_inv_def manager_stopped_def shutdown_wait_def split: if_splits)
  qed (use assms(1) in \<open>auto simp: proc_inv_def manager_stopped_def running_def\<close>)
qed

interpretation proc: safe_system proc_init "pstep d" proc_inv
proof
  show "proc_init s \<Longrightarrow> proc_inv s" for s
  proof -
    assume "proc_init s"
    then obtain conf where s: "ps_m s = main_manager conf" "ps_handlers s = []" "ps_phase s = Serving" "\<not> ps_drained s"
      by (auto simp: proc_init_def)
    have "mgr_inv (main_manager conf)" using mgr.inv_init by (simp add: mgr_init_def main_manager_def) blast
    then show ?thesis
      by (auto simp: s proc_inv_def manager_stopped_def live_registered_def main_manager_def NewManager_def)
  qed
  show "proc_inv s \<Longrightarrow> pstep d s t \<Longrightarrow> proc_inv t" for s t by (rule proc_inv_step)
qed

section \<open>A cancelled call\<close>

text \<open>Cancelling is enough to bring a call to its end, also when no maximum duration is set.\<close>

lemma cancelled_enabled:
  assumes "ca_cancelled (cs_c s)" "3 < prank (cs_pc s)"
  shows "\<exists>t. run_step d s t"
  by (rule run_step_enabled [OF assms(2)]) (simp add: end_due_def assms(1))

lemma cancelled_finishes:
  assumes "ca_cancelled (cs_c s)" "3 \<le> prank (cs_pc s)"
  shows "\<exists>t. (run_step d)\<^sup>*\<^sup>* s t \<and> cs_pc t = P_delete"
  using assms
proof (induction "prank (cs_pc s)" arbitrary: s rule: less_induct)
  case less
  show ?case
  proof (cases "prank (cs_pc s) = 3")
    case True
    then have "cs_pc s = P_delete" by (cases "cs_pc s") auto
    then show ?thesis by blast
  next
    case False
    then obtain u where u: "run_step d s u" using cancelled_enabled less.prems by fastforce
    have "ca_cancelled (cs_c u)" using cstep_keeps [of d s u] u less.prems(1) by (simp add: cstep_def)
    moreover have "3 \<le> prank (cs_pc u)" using u by cases (auto simp: failed_def)
    ultimately obtain t where "(run_step d)\<^sup>*\<^sup>* u t" "cs_pc t = P_delete" using less.hyps [OF prank_run [OF u]] by blast
    with u show ?thesis by (meson converse_rtranclp_into_rtranclp)
  qed
qed

section \<open>Concrete runs\<close>

definition demo_conf :: config where
  "demo_conf = \<lparr>c_HTTPAddr = ''127.0.0.1:8090'', c_LiveKitURL = ''ws://127.0.0.1:7880'', c_LiveKitAPIKey = ''k'', c_LiveKitSecret = ''s'',
     c_PublicIP = (10, 0, 0, 1), c_PortMin = 40000, c_PortMax = 49999, c_SetupTimeout = 30 * second,
     c_MediaTimeout = 20 * second, c_MaxCallDuration = 2 * hour, c_RTCPInterval = 2 * second, c_StatsInterval = 15 * second,
     c_ShutdownWindow = 15 * second\<rparr>"

lemma test_accept:
  assumes "c_PortMin conf = 40000" "c_PortMax conf = 49999"
  shows "\<exists>c m1. Accept_prepare demo_world p (main_manager conf) = (Inr c, m1)"
proof -
  have "fst (port_Listen (w_bind demo_world) (mg_ports (main_manager conf))) = Inr 40000"
    using assms by (simp add: port_Listen_def demo_world_def main_manager_def NewManager_def listen_loop.simps Let_def)
  then obtain ps where "port_Listen (w_bind demo_world) (mg_ports (main_manager conf)) = (Inr 40000, ps)"
    by (metis prod.collapse)
  moreover have "NewCertificate (w_create demo_world) (w_sha256 demo_world) = Inr demo_cert"
    by (simp add: NewCertificate_def demo_world_def demo_cert_def fingerprint_of_def)
  moreover obtain n where "ParseOfferAndAnswer (w_unmarshal demo_world) demo_candidate demo_rand 0
      (cp_SDP (default_names demo_world p)) demo_cert (Addr4 (mc_PublicIP (mg_conf (main_manager conf)))) 40000 = Inr n"
    using demo_offer_accepted by blast
  moreover have "w_candidate demo_world = demo_candidate" "w_rand demo_world = demo_rand" "w_now demo_world = 0"
    by (simp_all add: demo_world_def)
  ultimately show ?thesis by (simp add: Accept_prepare_def)
qed

abbreviation psy :: "manager \<Rightarrow> handler list \<Rightarrow> phase \<Rightarrow> bool \<Rightarrow> duration \<Rightarrow> duration option \<Rightarrow> psys" where
  "psy m hs ph drained now deadline \<equiv>
     \<lparr>ps_m = m, ps_handlers = hs, ps_phase = ph, ps_drained = drained, ps_window = 15 * second, ps_now = now,
      ps_deadline = deadline, ps_stopAt = 0, ps_reused = False\<rparr>"

text \<open>A process that has accepted one call, for a request that waits (or not).\<close>

lemma demo_accepted:
  "\<exists>q a ps. reach proc_init (pstep d) (psy (register (new_inbound q a) ((main_manager demo_conf)\<lparr>mg_ports := ps\<rparr>))
     (if b then [H_wait (demo_params\<lparr>cp_Wait := b\<rparr>) 0 True] else []) Serving False 0 None)"
proof -
  let ?m = "main_manager demo_conf" and ?p = "demo_params\<lparr>cp_Wait := b\<rparr>"
  obtain c m1 where prep: "Accept_prepare demo_world ?p ?m = (Inr c, m1)"
    using test_accept [of demo_conf ?p] by (auto simp: demo_conf_def)
  obtain q a where c: "c = new_inbound q a" using prepare_call(1) [OF prep] by blast
  obtain ps where m1: "m1 = ?m\<lparr>mg_ports := ps\<rparr>" using prepare_ports(1) [OF prep] by blast
  have "reach proc_init (pstep d) (psy ?m [] Serving False 0 None)"
    by (rule reach_init) (auto simp: proc_init_def demo_conf_def intro: exI [of _ demo_conf])
  moreover have "pstep d (psy ?m [] Serving False 0 None) (psy ?m [H_accept ?p] Serving False 0 None)"
    using pstep.arrive [of "psy ?m [] Serving False 0 None" "H_accept ?p" d] by (simp add: running_def fresh_handler_def)
  ultimately have "reach proc_init (pstep d) (psy ?m [H_accept ?p] Serving False 0 None)" by (rule reach_step)
  moreover have "Accept_enter ?p ?m = Inr None"
    by (simp add: Accept_enter_def accept_fields_def demo_params_def main_manager_def NewManager_def)
  then have "hstep (H_accept ?p) ?m (Some (H_setup ?p)) ?m" by (rule hstep.accept_new)
  then have "pstep d (psy ?m [H_accept ?p] Serving False 0 None) (psy ?m [H_setup ?p] Serving False 0 None)"
    using pstep.request [of "psy ?m [H_accept ?p] Serving False 0 None" "[]" "H_accept ?p" "[]" "Some (H_setup ?p)" ?m d]
    by (simp add: running_def reuses_def)
  ultimately have "reach proc_init (pstep d) (psy ?m [H_setup ?p] Serving False 0 None)" by (rule reach_step)
  moreover have "hstep (H_setup ?p) ?m (Some (H_accepting ?p c)) m1" using prep by (rule hstep.accept_prepared)
  then have "pstep d (psy ?m [H_setup ?p] Serving False 0 None) (psy m1 [H_accepting ?p c] Serving False 0 None)"
    using pstep.request [of "psy ?m [H_setup ?p] Serving False 0 None" "[]" "H_setup ?p" "[]" "Some (H_accepting ?p c)" m1 d]
    by (simp add: running_def reuses_def)
  ultimately have "reach proc_init (pstep d) (psy m1 [H_accepting ?p c] Serving False 0 None)" by (rule reach_step)
  moreover have "Accept_register c m1 = ((0, True), register c m1)"
    by (simp add: Accept_register_def m1 main_manager_def NewManager_def)
  then have "hstep (H_accepting ?p c) m1 (if b then Some (H_wait ?p 0 True) else None) (register c m1)"
    using hstep.accept_register [of c m1 0 True "register c m1" ?p] by simp
  then have "pstep d (psy m1 [H_accepting ?p c] Serving False 0 None)
      (psy (register c m1) (if b then [H_wait ?p 0 True] else []) Serving False 0 None)"
    using pstep.request [of "psy m1 [H_accepting ?p c] Serving False 0 None" "[]" "H_accepting ?p c" "[]"
        "if b then Some (H_wait ?p 0 True) else None" "register c m1" d]
    by (cases b) (simp_all add: running_def reuses_def)
  ultimately have "reach proc_init (pstep d) (psy (register c m1) (if b then [H_wait ?p 0 True] else []) Serving False 0 None)"
    by (rule reach_step)
  then show ?thesis unfolding c m1 by blast
qed

text \<open>The same process after a shutdown without requests in flight, and after one whose window was
  used up by the waiting request, once Meta had been told about the call.\<close>

lemma demo_drained:
  "\<exists>s c. reach proc_init (pstep d) s \<and> ps_drained s \<and> ps_phase s = Waiting \<and> \<not> ps_reused s \<and> mg_heap (ps_m s) 0 = Some c"
proof -
  obtain q a ps where acc: "reach proc_init (pstep d) (psy (register (new_inbound q a) ((main_manager demo_conf)\<lparr>mg_ports := ps\<rparr>)) [] Serving False 0 None)"
    using demo_accepted [of d False] by auto
  let ?m = "register (new_inbound q a) ((main_manager demo_conf)\<lparr>mg_ports := ps\<rparr>)"
  have "pstep d (psy ?m [] Serving False 0 None) (psy ?m [] ServerStopping False 0 (Some (15 * second)))"
    using pstep.signal [of "psy ?m [] Serving False 0 None" d] by simp
  with acc have "reach proc_init (pstep d) (psy ?m [] ServerStopping False 0 (Some (15 * second)))" by (rule reach_step)
  moreover have "pstep d (psy ?m [] ServerStopping False 0 (Some (15 * second))) (psy ?m [] ManagerStopping True 0 (Some (15 * second)))"
    using pstep.server_down [of "psy ?m [] ServerStopping False 0 (Some (15 * second))" d] by simp
  ultimately have "reach proc_init (pstep d) (psy ?m [] ManagerStopping True 0 (Some (15 * second)))" by (rule reach_step)
  moreover have "pstep d (psy ?m [] ManagerStopping True 0 (Some (15 * second))) (psy (mgr_Shutdown ?m) [] Waiting True 0 (Some (15 * second)))"
    using pstep.manager_stop [of "psy ?m [] ManagerStopping True 0 (Some (15 * second))" d] by simp
  ultimately have "reach proc_init (pstep d) (psy (mgr_Shutdown ?m) [] Waiting True 0 (Some (15 * second)))" by (rule reach_step)
  moreover have "mg_heap (mgr_Shutdown ?m) 0 \<noteq> None"
    by (simp add: mgr_Shutdown_def register_def main_manager_def NewManager_def)
  ultimately show ?thesis by fastforce
qed

lemma demo_signaled:
  "\<exists>m hs c. reach proc_init (pstep d) (psy m hs Serving False 0 None) \<and> mg_heap m 0 = Some c \<and> registered m 0 \<and> mg_wg m = 1 \<and>
     ca_signaled (cs_c c) \<and> \<not> ca_userTerminated (cs_c c) \<and> cs_terminates c = 0"
proof -
  obtain q a ps hs where acc: "reach proc_init (pstep d) (psy (register (new_inbound q a) ((main_manager demo_conf)\<lparr>mg_ports := ps\<rparr>)) hs Serving False 0 None)"
    using demo_accepted [of d True] by auto
  let ?m = "register (new_inbound q a) ((main_manager demo_conf)\<lparr>mg_ports := ps\<rparr>)"
  let ?c = "new_inbound q a" and ?at = "\<lambda>c. ?m\<lparr>mg_heap := (mg_heap ?m)(0 \<mapsto> c)\<rparr>"
  let ?c1 = "dsys (?c\<lparr>ca_bridge := True\<rparr>) P_preaccept" and ?c2 = "dsys (?c\<lparr>ca_bridge := True, ca_signaled := True\<rparr>) P_media"
  have "mg_heap ?m 0 = Some (start_call ?c)" by (simp add: register_def main_manager_def NewManager_def)
  moreover have "cstep d (start_call ?c) ?c1"
    using run_step.bridge_ok [of "start_call ?c" d] by (simp add: cstep_def start_call_def new_inbound_def)
  ultimately have "pstep d (psy ?m hs Serving False 0 None) (psy (?at ?c1) hs Serving False 0 None)"
    using pstep.call [of "psy ?m hs Serving False 0 None" 0 "start_call ?c" d ?c1] by (simp add: running_def)
  with acc have "reach proc_init (pstep d) (psy (?at ?c1) hs Serving False 0 None)" by (rule reach_step)
  moreover have "cstep d ?c1 ?c2" using run_step.preaccept_ok [of ?c1 d] by (simp add: cstep_def start_call_def)
  then have "pstep d (psy (?at ?c1) hs Serving False 0 None) (psy (?at ?c2) hs Serving False 0 None)"
    using pstep.call [of "psy (?at ?c1) hs Serving False 0 None" 0 ?c1 d ?c2] by (simp add: running_def)
  ultimately have "reach proc_init (pstep d) (psy (?at ?c2) hs Serving False 0 None)" by (rule reach_step)
  moreover have "mg_heap (?at ?c2) 0 = Some ?c2" "registered (?at ?c2) 0" "mg_wg (?at ?c2) = 1"
    by (simp_all add: registered_def register_def main_manager_def NewManager_def start_call_def new_inbound_def)
  moreover have "ca_signaled (cs_c ?c2)" "\<not> ca_userTerminated (cs_c ?c2)" "cs_terminates ?c2 = 0"
    by (simp_all add: start_call_def new_inbound_def)
  ultimately show ?thesis by blast
qed

section \<open>Properties\<close>

text \<open>
  C11: A shutdown whose HTTP server comes to rest within the window stops every call: once
  \<open>manager.Shutdown\<close> has been called, no request is in flight (so no call can slip in after it),
  every call ever started is cancelled and marked by the side that ended it, the goroutine of
  every call that has not been removed can run to its removal on its own, even without a maximum
  duration and if the bridge and the media stay up, and if the process exits without
  an error all calls have finished, with their sockets closed and Meta told wherever that was
  due. Meta must not have given a dialled call the id of a registered one.
\<close>

theorem graceful_shutdown:
  assumes "reach proc_init (pstep d) s" "ps_drained s" "manager_stopped s" "\<not> ps_reused s" "mg_heap (ps_m s) r = Some c"
  shows "ps_handlers s = [] \<and> ca_cancelled (cs_c c) \<and> (ca_terminate (cs_c c) \<or> ca_userTerminated (cs_c c)) \<and>
    (3 \<le> prank (cs_pc c) \<longrightarrow> (\<exists>t. (run_step d)\<^sup>*\<^sup>* c t \<and> cs_pc t = P_delete)) \<and>
    (ps_phase s = Exited None \<longrightarrow> cs_pc c = P_done \<and> cs_socketClosed c \<and>
       (ca_signaled (cs_c c) \<and> \<not> ca_userTerminated (cs_c c) \<longrightarrow> cs_terminates c = 1))"
proof -
  have inv: "proc_inv s" using proc.reach_inv [OF assms(1)] .
  then have m: "wg_inv (ps_m s)" "calls_inv (ps_m s)" "live_registered (ps_m s)" "registered_cancelled (ps_m s)"
    using assms(2-4) by (auto simp: proc_inv_def mgr_inv_def)
  have c: "call_inv c" using m(2) assms(5) by (auto simp: calls_inv_def)
  have canc: "ca_cancelled (cs_c c)"
  proof (cases "3 \<le> prank (cs_pc c)")
    case True
    then show ?thesis using m(3,4) assms(5) by (auto simp: live_registered_def registered_cancelled_def)
  qed (use c in \<open>auto simp: call_inv_def flag_inv_def Let_def\<close>)
  moreover have "cs_pc c = P_done" if "ps_phase s = Exited None"
  proof -
    have "mg_wg (ps_m s) = 0" using inv that by (auto simp: proc_inv_def)
    with m(1) unfinished_finite [OF m(1)] have "unfinished (ps_m s) = {}" by (simp add: wg_inv_def)
    with assms(5) show ?thesis by (auto simp: unfinished_def)
  qed
  ultimately show ?thesis
    using inv assms(2) c cancelled_finishes [OF canc]
    by (auto simp: proc_inv_def call_inv_def flag_inv_def term_inv_def res_inv_def Let_def)
qed

theorem graceful_shutdown_witness:
  "\<exists>s c. reach proc_init (pstep 0) s \<and> ps_phase s = Waiting \<and> mg_heap (ps_m s) 0 = Some c \<and> ca_cancelled (cs_c c)"
proof -
  obtain s c where s: "reach proc_init (pstep 0) s" "ps_drained s" "ps_phase s = Waiting" "\<not> ps_reused s" "mg_heap (ps_m s) 0 = Some c"
    using demo_drained by blast
  moreover have "manager_stopped s" using s(3) by (simp add: manager_stopped_def)
  ultimately show ?thesis using graceful_shutdown [of 0 s 0 c] by blast
qed

text \<open>
  C21: The two shutdowns share one window: a request that waits for its call keeps
  \<open>server.Shutdown\<close> from returning until the window is over, and \<open>manager.Shutdown\<close> then stops the
  calls but has no time left to wait for them. Whatever the maximum duration, the process can
  exit with the error of an expired deadline at the very moment at which \<open>manager.Shutdown\<close> was
  called, although the window is positive, leaving behind a call that Meta was told about, that
  nobody hung up and that is never terminated at Meta. (With a window of its own
  \<open>manager.Shutdown\<close> would have waited for a positive time first.)
\<close>

theorem shutdown_window_shared:
  "\<exists>s c. reach proc_init (pstep d) s \<and> 0 < ps_window s \<and> ps_phase s = Exited (Some ErrDeadlineExceeded) \<and>
     ps_stopAt s = ps_now s \<and> mg_heap (ps_m s) 0 = Some c \<and>
     ca_signaled (cs_c c) \<and> ca_terminate (cs_c c) \<and> cs_terminates c = 0"
proof -
  let ?w = "15 * second"
  obtain m hs c where r: "reach proc_init (pstep d) (psy m hs Serving False 0 None)" and c: "mg_heap m 0 = Some c" "registered m 0"
      "mg_wg m = 1" "ca_signaled (cs_c c)" "\<not> ca_userTerminated (cs_c c)" "cs_terminates c = 0"
    using demo_signaled by blast
  have "pstep d (psy m hs Serving False 0 None) (psy m hs ServerStopping False 0 (Some ?w))"
    using pstep.signal [of "psy m hs Serving False 0 None" d] by simp
  with r have "reach proc_init (pstep d) (psy m hs ServerStopping False 0 (Some ?w))" by (rule reach_step)
  moreover have "pstep d (psy m hs ServerStopping False 0 (Some ?w)) (psy m hs ServerStopping False ?w (Some ?w))"
    using pstep.elapse [of "psy m hs ServerStopping False 0 (Some ?w)" ?w d] by (simp add: running_def)
  ultimately have "reach proc_init (pstep d) (psy m hs ServerStopping False ?w (Some ?w))" by (rule reach_step)
  moreover have "pstep d (psy m hs ServerStopping False ?w (Some ?w)) (psy m hs ManagerStopping False ?w (Some ?w))"
    using pstep.server_timeout [of "psy m hs ServerStopping False ?w (Some ?w)" d] by (simp add: expired_def)
  ultimately have "reach proc_init (pstep d) (psy m hs ManagerStopping False ?w (Some ?w))" by (rule reach_step)
  moreover have "pstep d (psy m hs ManagerStopping False ?w (Some ?w)) ((psy (mgr_Shutdown m) hs Waiting False ?w (Some ?w))\<lparr>ps_stopAt := ?w\<rparr>)"
    using pstep.manager_stop [of "psy m hs ManagerStopping False ?w (Some ?w)" d] by simp
  ultimately have "reach proc_init (pstep d) ((psy (mgr_Shutdown m) hs Waiting False ?w (Some ?w))\<lparr>ps_stopAt := ?w\<rparr>)" by (rule reach_step)
  moreover have "shutdown_wait True (Some ErrDeadlineExceeded) (mgr_Shutdown m) = Some (Some ErrDeadlineExceeded)"
    using c(3) by (simp add: shutdown_wait_def mgr_Shutdown_def)
  then have "pstep d ((psy (mgr_Shutdown m) hs Waiting False ?w (Some ?w))\<lparr>ps_stopAt := ?w\<rparr>)
      ((psy (mgr_Shutdown m) hs (Exited (Some ErrDeadlineExceeded)) False ?w (Some ?w))\<lparr>ps_stopAt := ?w\<rparr>)"
    using pstep.exits [of "(psy (mgr_Shutdown m) hs Waiting False ?w (Some ?w))\<lparr>ps_stopAt := ?w\<rparr>" True "Some ErrDeadlineExceeded" d]
    by (simp add: expired_def)
  ultimately have "reach proc_init (pstep d) ((psy (mgr_Shutdown m) hs (Exited (Some ErrDeadlineExceeded)) False ?w (Some ?w))\<lparr>ps_stopAt := ?w\<rparr>)"
    by (rule reach_step)
  moreover have "mg_heap (mgr_Shutdown m) 0 = Some (c\<lparr>cs_c := stopBusiness (cs_c c)\<rparr>)"
    using c(1,2) by (simp add: mgr_Shutdown_def)
  ultimately show ?thesis using c by (fastforce simp: call_op_defs)
qed

text \<open>
  C19: No route leads around the authentication: the Twirp service runs for a request exactly
  if its path is in canonical form, lies below the connector's prefix (and is not one of the
  two open paths), and its header is a bearer token that parses, names the configured key,
  verifies under the configured secret and grants room creation.
\<close>

theorem routes_guarded:
  "main_serve parse key_of verify conf prefix path authorization = Twirp \<longleftrightarrow>
   clean_path path = path \<and> (\<exists>rest. path = prefix @ rest) \<and> path \<noteq> ''/healthz'' \<and> path \<noteq> ''/metrics'' \<and>
   (\<exists>rest v. authorization = ''Bearer '' @ rest \<and> parse (trim_space rest) = Inr v \<and> key_of v = c_LiveKitAPIKey conf \<and>
      verify v (c_LiveKitSecret conf) = Inr (Some \<lparr>gr_Video = Some True\<rparr>))"
proof -
  have "main_serve parse key_of verify conf prefix path authorization = Twirp \<longleftrightarrow>
      serve_mux prefix path = ToConnector \<and>
      AuthMiddleware parse key_of verify (c_LiveKitAPIKey conf) (c_LiveKitSecret conf) authorization = Serve"
    by (auto simp: main_serve_def split: route.splits auth_outcome.splits)
  moreover have "serve_mux prefix path = ToConnector \<longleftrightarrow>
      clean_path path = path \<and> (\<exists>rest. path = prefix @ rest) \<and> path \<noteq> ''/healthz'' \<and> path \<noteq> ''/metrics''"
    by (auto simp: serve_mux_def mux_match_def has_prefix_iff Let_def split: option.splits)
  ultimately show ?thesis by (simp add: auth_served)
qed

end
