(* ===== verification/Spec2Isabelle.thy ===== *)
theory Spec2Isabelle
  imports PeerConnect PacketMux SdpText Diagnostics Signalling Process
begin

text \<open>
  \<^bold>\<open>A verified model of the WhatsApp connector.\<close>

  The program connects WhatsApp calls (Meta's Graph API and WebRTC media) with LiveKit rooms.
  A Twirp service receives requests to accept, dial, connect and disconnect calls; a manager
  keeps the calls and runs one goroutine for each; that goroutine joins a LiveKit room through
  the bridge, signals to Meta through the API client and carries audio over a media transport
  of ICE, DTLS and SRTP; RTP is rewritten in both directions, measured and reported by RTCP.

  \<^bold>\<open>Theories and sources\<close> (paths below \<open>src/\<close>), from the leaves to the root:
  \<^item> \<open>Prelude\<close>: machine integers, errors with \<open>errors.Is\<close>, reachability, the shared locales.
  \<^item> \<open>GoStrings\<close>, \<open>GoFloat\<close>: what the sources use of Go's standard library (\<open>strings\<close>,
    \<open>strconv.Atoi\<close>, \<open>time.ParseDuration\<close>, IPv4 addresses, \<open>encoding/hex\<close>; float64 rounding to
    nearest even).
  \<^item> \<open>Rtp\<close>, \<open>RtpStats\<close>: \<open>internal/media/rtpstats.go\<close>. The records \<open>rxStats\<close> and \<open>txStats\<close> have
    the fields of the structures at their widths; one function for each method.
  \<^item> \<open>Rebaser\<close>: \<open>internal/livekitbridge/rebase.go\<close>.
  \<^item> \<open>Ports\<close>: \<open>internal/media/ports.go\<close>. \<open>Config\<close>: \<open>internal/config/config.go\<close>.
  \<^item> \<open>MetaClient\<close>: \<open>internal/meta/client.go\<close>, with the list of requests sent as history.
  \<^item> \<open>Sdp\<close>: \<open>internal/media/sdp.go\<close>: \<open>NewOffer\<close>, \<open>ParseOfferAndAnswer\<close>, \<open>ApplyAnswer\<close> and the
    texts they build. \<open>SdpText\<close>: a reference reader of SDP lines, which states what is asked of the
    parser and reads those texts back.
  \<^item> \<open>internal/media/transport.go\<close> in four parts: \<open>PacketMux\<close> (\<open>packetMux\<close>, \<open>endpoint\<close>),
    \<open>Transport\<close> (\<open>Start\<close>, \<open>run\<close>, \<open>setResult\<close>, \<open>Wait\<close>, \<open>Close\<close> and the resources they own),
    \<open>PeerConnect\<close> (the certificate callback, \<open>connectICE\<close> and the whole of \<open>run\<close> when nobody
    interferes), \<open>MediaPath\<close> (RTP, RTCP and statistics of an established transport).
  \<^item> \<open>Bridge\<close>: \<open>internal/livekitbridge/bridge.go\<close>.
  \<^item> \<open>internal/call/manager.go\<close>: \<open>Call\<close> is one call with its goroutine, \<open>Manager\<close> the registry
    of calls. Three theories look inside a call: \<open>Signalling\<close> composes its goroutine with the API
    client, so that the requests to Meta and their contents appear; \<open>Relay\<close> composes the copy
    loop of \<open>connected\<close> with the inbound queue, the bridge, \<open>awaitEnd\<close> and the time that passes
    meanwhile; \<open>Diagnostics\<close> is what is logged (\<open>statsAttrs\<close>, \<open>logStats\<close>, \<open>observeRTCP\<close>, \<open>callLabel\<close>).
  \<^item> \<open>Service\<close>: \<open>internal/connector/service.go\<close>, \<open>internal/connector/auth.go\<close>.
  \<^item> \<open>Process\<close>: \<open>cmd/whatsapp-connector/main.go\<close>: start-up, routes, the requests in flight, and
    the shutdown of server and manager.

  \<^bold>\<open>How code is represented.\<close> A structure is a record, a method a function from the old to the
  new record, a fallible method returns \<open>go_error + 'a\<close> (or \<open>go_error option\<close> where the code
  returns only an error). Goroutines are inductive step relations (\<open>mux_step\<close>, \<open>tstep\<close>,
  \<open>pump_step\<close>, \<open>fwd_step\<close>, \<open>cstep\<close>, \<open>sig_step\<close>, \<open>relay_step\<close>, \<open>diag_step\<close>, \<open>mstep\<close>, \<open>pstep\<close>): one
  step is one critical section of a mutex or one channel operation, and the properties hold for
  every interleaving. A branch of a \<open>select\<close> can be taken only when it is ready: a channel closed
  or filled by another step, a context cancelled, or enough time passed. Time passes in steps of
  its own (\<open>elapse\<close>) wherever a property depends on a timer: the maximum duration of a call
  (\<open>cs_talked\<close>), the media timeout (\<open>rl_silent\<close>) and the shutdown window (\<open>ps_now\<close>). A channel that is only
  ever closed is a flag, or the number of times it was closed where a second close has to be
  excluded. Code outside the repository (pion, the LiveKit SDK, HTTP exchanges, random and
  cryptographic functions, the operating system) is a parameter of the definitions or a
  result chosen freely by the environment of a step.

  \<^bold>\<open>Interfaces.\<close> \<open>safe_system\<close> (an inductive invariant of a step relation) is interpreted for the
  multiplexer, the transport, the inbound pump (once for what it conserves, once for the order
  it keeps), the forwarders, a call, its signalling, relay and diagnostics, the manager and the
  process;
  \<open>one_shot\<close> for the channels closed by the multiplexer, its endpoints, the bridge and a call;
  \<open>bounded_channel\<close> for the endpoint, RTP and RTCP queues, which send by blocking, by evicting
  the oldest and by dropping the newest; \<open>retrying\<close> for the four requests of the API client;
  \<open>rtp_rewriter\<close> for the rebaser and \<open>port_source\<close> for the port allocator.

  \<^bold>\<open>What is shown.\<close>
  \<^item> Signalling: Meta is told to terminate a call at most once and exactly when due; an
    outbound call is requested at most once; accepting is repeated only when safe; terminating
    gets through within its three attempts; the exchanges of a call are in order and carry its
    own id, answer and token.
  \<^item> Negotiation: accepted descriptions are complete, an offer and its answer leave both sides
    with mirrored parameters and opposite DTLS roles (through the texts exchanged), and only the negotiated certificate
    passes the handshake.
  \<^item> Resources: closing a transport releases everything it ever created and always completes;
    an undisturbed run reports the first error and leaves nothing behind; a call with a maximum
    duration always ends with its socket and bridge closed, and a connected call does not outlive
    its media; the registry is well formed;
    shutting down waits for exactly the unfinished calls, and the process stops all of them if
    its HTTP server comes to rest within the window.
  \<^item> Media: the multiplexer keeps order and routes by class, every inbound packet is accounted
    for and in order per source, the caller's audio arrives at LiveKit with its payload intact,
    rewritten streams continue without gaps, the counters of 16 and 32 bits report what
    unbounded counters would, and the logged reason of a call's end is true.
  \<^item> Access: no route leads around the authentication.
  \<^item> Three properties of this theory combine components: early audio is dropped and counted,
    the mirrored certificate is the only one that verifies, an accepted call listens on the
    address its answer announces.
  \<^item> Defects are stated as theorems too: \<open>shutdown_window_shared\<close>, \<open>accept_escapes_shutdown\<close>,
    \<open>two_subscribed_tracks_forwarded\<close>, \<open>colonless_fingerprint_never_verifies\<close>,
    \<open>service_timeout_codes\<close> and the exception in \<open>classify_exact\<close>.

  \<^bold>\<open>Bounds.\<close> Loops over data are structural recursion. The port search recurses on the number
  of ports in the range, which is what the Go loop counts. The API client recurses on the
  attempts left, at most three. The candidate poll of \<open>connectICE\<close> recurses on the list of
  its rounds, so any number of them is covered. Termination of the transport
  and of a call is shown by a measure that decreases with every step together with progress.
  Where a counter of bounded width limits a statement (fewer than 2 to the 32 packets),
  the bound is a hypothesis of the theorem.

  \<^bold>\<open>Not modelled.\<close> Where log lines go, and the lines that only announce a step; the metrics
  handler and the delivery of signals; CONNECT requests and request paths with percent
  escapes; the length of the set-up, ringing and request deadlines (they may expire at any step); LiveKit attributes and agent
  dispatches, which are passed through unread.
\<close>

section \<open>Audio before the media path is up\<close>

lemma not_ready_not_fatal: "\<not> isFatalWrite ErrBridgeNotReady"
  by (simp add: isFatalWrite_def)

lemma not_ready_dropped:
  "forward_packet now p (Some ErrBridgeNotReady) b = (True, b1, q) \<Longrightarrow>
   br_txDropped b1 = br_txDropped b + 1 \<and> br_txPackets b1 = br_txPackets b \<and> br_txWriteErrors b1 = br_txWriteErrors b"
  by (auto simp: forward_packet_def not_ready_not_fatal countWriteFailure_def Let_def split: prod.splits)

lemma forward_packet_goes_on: "fst (forward_packet now p (Some ErrBridgeNotReady) b)"
  by (simp add: forward_packet_def not_ready_not_fatal Let_def split: prod.splits)

section \<open>Concrete inputs\<close>

text \<open>The answering side of the exchange in the theory \<open>Sdp\<close>, complete.\<close>

definition demo_peer :: Negotiation where
  "demo_peer = (demo_local ''active'' True)\<lparr>ng_RemoteUfrag := hex_encode (replicate 8 1), ng_RemotePwd := hex_encode (replicate 24 1),
     ng_RemoteFingerprint := ct_Fingerprint demo_cert,
     ng_RemoteCandidates := [\<lparr>ic_Raw = [], ic_Address = ((10, 0, 0, 1), 9), ic_Foundation = [], ic_Priority = 0, ic_Type = 0\<rparr>]\<rparr>"

lemma test_config:
  "\<exists>conf. Load test_env = Inr conf \<and> c_PortMin conf = 40000 \<and> c_PortMax conf = 49999"
proof -
  have "parse_addr4 (test_env ''PUBLIC_IP'') = Some (203, 0, 113, 10)" by code_simp
  then show ?thesis by (simp add: Load_def Let_def envInt_def test_env_def)
qed

section \<open>Properties across components\<close>

text \<open>
  C36: Agent audio that arrives before Meta can take it costs exactly one packet and nothing
  else: while an outbound call is unanswered, or its transport does not exist or is not ready,
  the packet is refused at once, the forwarder of the bridge counts it as dropped and goes on,
  and the media path is unchanged (nothing is queued for later).
\<close>

theorem early_audio_dropped:
  assumes "(ca_outbound c \<and> ca_answerReady c = 0) \<or> \<not> ca_transport c \<or> \<not> ready"
    and "TryWriteRTP ready err opn marshal wr srtp now p m = (r, m1)"
    and "forward_packet now' p' (writeToMeta r c) b = (go, b1, q)"
  shows "writeToMeta r c = Some ErrBridgeNotReady \<and> go \<and> br_txDropped b1 = br_txDropped b + 1 \<and>
    br_txPackets b1 = br_txPackets b \<and> br_txWriteErrors b1 = br_txWriteErrors b \<and> (\<not> ready \<longrightarrow> m1 = m)"
proof -
  have "\<not> ready \<Longrightarrow> r = Some ErrMediaNotReady \<and> m1 = m"
    using assms(2) by (auto simp: TryWriteRTP_def)
  with assms(1) have w: "writeToMeta r c = Some ErrBridgeNotReady" "\<not> ready \<longrightarrow> m1 = m"
    by (auto simp: writeToMeta_def)
  with assms(3) forward_packet_goes_on [of now' p' b] have "go" by simp
  with w assms(3) not_ready_dropped [of now' p' b b1 q] show ?thesis by simp
qed

theorem early_audio_dropped_witness:
  "\<exists>b1 q. forward_packet 0 (sample_packet 7 1 960) (writeToMeta None (new_outbound demo_params (demo_local ''actpass'' False)))
      (newBridge 111) = (True, b1, q) \<and> br_txDropped b1 = 1"
proof -
  let ?c = "new_outbound demo_params (demo_local ''actpass'' False)" and ?p = "sample_packet 7 1 960"
    and ?m = "newMediaPath second 1"
  obtain r m1 where t: "TryWriteRTP True None None (\<lambda>p. Inr []) (\<lambda>b. None) True 0 ?p ?m = (r, m1)" by fastforce
  then have "r = None" by (simp add: TryWriteRTP_def writeRTP_def)
  obtain go b1 q where f: "forward_packet 0 ?p (writeToMeta r ?c) (newBridge 111) = (go, b1, q)" by (metis prod_cases3)
  have "ca_outbound ?c \<and> ca_answerReady ?c = 0" by (simp add: new_outbound_def)
  then have "go \<and> br_txDropped b1 = br_txDropped (newBridge 111) + 1"
    using early_audio_dropped [OF _ t f] by blast
  with f \<open>r = None\<close> show ?thesis by (simp add: newBridge_def)
qed

text \<open>
  C10: The two ends of a negotiation accept each other and nobody else: if one side's
  negotiation mirrors the other's, its DTLS certificate check accepts a peer exactly if the
  peer's certificate hashes like the one the other side created for this call.
\<close>

theorem negotiated_peer_only:
  assumes "mirrors a b" "ng_Certificate b = Some cert" "NewCertificate made sha256 = Inr cert"
    and "\<And>raw. list_all (\<lambda>x. x < 256) (sha256 raw)"
  shows "verify_peer sha256 (ng_RemoteFingerprint a) (raw # chain) = None \<longleftrightarrow> sha256 raw = sha256 (ct_raw cert)"
proof -
  have "ct_Fingerprint cert = colon_hex (sha256 (ct_raw cert))"
    using assms(3) by (auto simp: NewCertificate_def fingerprint_of_def split: sum.splits)
  then have "ng_RemoteFingerprint a = colon_hex (sha256 (ct_raw cert))"
    using assms(1,2) by (simp add: mirrors_def cert_fingerprint_def)
  then show ?thesis using verify_peer_exact [of sha256 "sha256 (ct_raw cert)" "raw # chain"] assms(4) by auto
qed

theorem negotiated_peer_only_witness:
  "verify_peer (\<lambda>_. replicate 32 170) (ng_RemoteFingerprint demo_peer) [[1, 2, 3]] = None"
proof -
  have "mirrors demo_peer (demo_local ''passive'' True)"
    by (simp add: mirrors_def demo_peer_def demo_local_sel cert_fingerprint_def)
  moreover have "NewCertificate (Inr []) (\<lambda>_. replicate 32 170) = Inr demo_cert"
    by (simp add: NewCertificate_def demo_cert_def fingerprint_of_def)
  ultimately show ?thesis
    using negotiated_peer_only [of demo_peer "demo_local ''passive'' True" demo_cert "Inr []" "\<lambda>_. replicate 32 170" "[1, 2, 3]" "[]"]
    by (simp add: demo_local_sel list_all_iff)
qed

text \<open>
  C37: With a configuration that loads, every accepted call advertises an address Meta can
  reach: after any number of earlier calls, an \<open>Accept\<close> that gets through its set-up has bound
  a valid UDP port, and its SDP answer describes exactly the configured public address, that
  port and a complete negotiation.
\<close>

theorem accepted_call_reachable:
  assumes "Load getenv = Inr conf"
    and "mg_ports m = fold (\<lambda>bind q. snd (port_Listen bind q)) earlier (mg_ports (main_manager conf))"
    and "mg_conf m = mg_conf (main_manager conf)" "Accept_prepare w p m = (Inr c, m1)"
  shows "\<exists>port n. w_bind w port \<and> 1 \<le> port \<and> port \<le> 65535 \<and> ng_Local n = (Addr4 (c_PublicIP conf), word_of_int port) \<and>
    remote_ok n \<and> roles_ok n \<and> ca_answer c = buildAnswer (w_now w) n"
proof -
  have "port_range_ok (mg_ports (main_manager conf))"
    using config_loads_ok [OF assms(1)] by (rule config_ports_usable)
  then have ports: "fst (port_Listen (w_bind w) (mg_ports m)) = Inr port \<Longrightarrow> w_bind w port \<and> 1 \<le> port \<and> port \<le> 65535" for port
    unfolding assms(2) by (rule ports.port_after)
  obtain port cert n where pn: "fst (port_Listen (w_bind w) (mg_ports m)) = Inr port"
      "ParseOfferAndAnswer (w_unmarshal w) (w_candidate w) (w_rand w) (w_now w) (cp_SDP (default_names w p)) cert
         (Addr4 (mc_PublicIP (mg_conf m))) port = Inr n" "ca_answer c = ng_Answer n"
    using assms(4) by (auto simp: Accept_prepare_def new_inbound_def Let_def split: prod.splits sum.splits)
  with ports [OF pn(1)] ParseOfferAndAnswer_Inr [OF pn(2)] ParseOfferAndAnswer_answer [OF pn(2)] assms(3)
  show ?thesis by (intro exI [of _ port] exI [of _ n]) (simp add: main_manager_def NewManager_def)
qed

theorem accepted_call_reachable_witness:
  "\<exists>port. w_bind demo_world port \<and> 1 \<le> port \<and> port \<le> 65535"
proof -
  obtain conf where conf: "Load test_env = Inr conf" "c_PortMin conf = 40000" "c_PortMax conf = 49999"
    using test_config by blast
  obtain c m1 where "Accept_prepare demo_world demo_params (main_manager conf) = (Inr c, m1)"
    using test_accept [OF conf(2,3)] by blast
  with accepted_call_reachable [OF conf(1), of "main_manager conf" "[]"] show ?thesis by fastforce
qed

end
